theory Spec2Isabelle
  imports Main "HOL-Library.Word"
begin

section \<open>Machine integers of the driver\<close>

text \<open>
  The driver runs on a 32-bit target: \<open>int\<close> and \<open>unsigned int\<close> have 32 bits,
  \<open>uint16_t\<close> and \<open>int16_t\<close> have 16. String positions and counters are kept as
  \<open>nat\<close>/\<open>int\<close> with every narrowing conversion written out; the values stored
  into code arrays, bit widths, repeat counts and the 64-bit code are words.
\<close>

definition u16 :: "int \<Rightarrow> nat" where
  \<comment> \<open>conversion to \<open>uint16_t\<close>\<close>
  "u16 i = nat (i mod 65536)"

definition s16 :: "int \<Rightarrow> int" where
  \<comment> \<open>conversion to \<open>int16_t\<close> (two's complement wrap)\<close>
  "s16 i = (i + 32768) mod 65536 - 32768"

definition u32 :: "int \<Rightarrow> nat" where
  \<comment> \<open>conversion to \<open>unsigned int\<close>\<close>
  "u32 i = nat (i mod 4294967296)"

definition s32 :: "int \<Rightarrow> int" where
  \<comment> \<open>conversion to \<open>int\<close>\<close>
  "s32 i = (i + 2147483648) mod 4294967296 - 2147483648"

section \<open>The Arduino \<open>String\<close> and C library primitives the driver calls\<close>

text \<open>
  A \<open>String\<close> is its list of characters (no embedded NUL). \<open>indexOf\<close> answers \<open>-1\<close>
  when the start position is at or beyond the end or when the character does not occur;
  \<open>substring\<close> swaps its bounds when they are out of order, answers the empty string when
  the left bound is at or beyond the end, and clips the right bound to the length.
\<close>

fun strchr :: "string \<Rightarrow> char \<Rightarrow> nat option" where
  "strchr [] ch = None"
| "strchr (c # cs) ch = (if c = ch then Some 0 else map_option Suc (strchr cs ch))"

definition indexOf :: "string \<Rightarrow> char \<Rightarrow> nat \<Rightarrow> int" where
  "indexOf str ch fromIndex =
     (if length str \<le> fromIndex then - 1
      else case strchr (drop fromIndex str) ch of
             None \<Rightarrow> - 1
           | Some k \<Rightarrow> int (fromIndex + k))"

definition substring :: "string \<Rightarrow> nat \<Rightarrow> nat \<Rightarrow> string" where
  "substring str left right =
     (let l = (if right < left then right else left);
          r = (if right < left then left else right)
      in if length str \<le> l then []
         else take (min r (length str) - l) (drop l str))"

definition startsWith :: "string \<Rightarrow> string \<Rightarrow> bool" where
  "startsWith str s2 = (length s2 \<le> length str \<and> take (length s2) str = s2)"

definition isspace :: "char \<Rightarrow> bool" where
  "isspace c = (c \<in> set [CHR '' '', CHR 0x09, CHR 0x0A, CHR 0x0B, CHR 0x0C, CHR 0x0D])"

definition isdigit :: "char \<Rightarrow> bool" where
  "isdigit c = (c \<in> set ''0123456789'')"

definition isupper :: "char \<Rightarrow> bool" where
  "isupper c = (c \<in> set ''ABCDEFGHIJKLMNOPQRSTUVWXYZ'')"

definition isxdigit :: "char \<Rightarrow> bool" where
  "isxdigit c = (c \<in> set ''0123456789abcdefABCDEF'')"

definition digit_val :: "char \<Rightarrow> nat" where
  \<comment> \<open>value of a character read as a digit in bases up to 16\<close>
  "digit_val c =
     (if isdigit c then of_char c - of_char CHR ''0''
      else if isupper c then of_char c - of_char CHR ''A'' + 10
      else of_char c - of_char CHR ''a'' + 10)"

definition strip_sign :: "string \<Rightarrow> bool \<times> string" where
  \<comment> \<open>leading white space, then an optional sign, as \<open>strtol\<close> and \<open>strtoul\<close> read them\<close>
  "strip_sign s =
     (case dropWhile isspace s of
        [] \<Rightarrow> (False, [])
      | c # cs \<Rightarrow> if c = CHR ''-'' then (True, cs)
                  else if c = CHR ''+'' then (False, cs)
                  else (False, c # cs))"

definition toInt :: "string \<Rightarrow> int" where
  \<comment> \<open>\<open>String::toInt\<close>, that is \<open>atol\<close>: a 32-bit \<open>long\<close>, saturating\<close>
  "toInt s =
     (let (neg, r) = strip_sign s;
          v = foldl (\<lambda>a c. a * 10 + int (digit_val c)) 0 (takeWhile isdigit r)
      in if neg then max (- 2147483648) (- v) else min 2147483647 v)"

definition strtoul16 :: "string \<Rightarrow> nat" where
  \<comment> \<open>\<open>strtoul(s, NULL, 16)\<close>: an optional \<open>0x\<close>, hexadecimal digits, 32-bit \<open>unsigned long\<close>\<close>
  "strtoul16 s =
     (let (neg, r) = strip_sign s;
          r' = (if startsWith r ''0x'' \<or> startsWith r ''0X'' then drop 2 r else r);
          v = foldl (\<lambda>a c. a * 16 + digit_val c) 0 (takeWhile isxdigit r')
      in if 4294967295 < v then 4294967295
         else if neg then (4294967296 - v) mod 4294967296 else v)"

definition strtoul10 :: "string \<Rightarrow> nat" where
  \<comment> \<open>\<open>strtoul(s, NULL, 10)\<close>\<close>
  "strtoul10 s =
     (let (neg, r) = strip_sign s;
          v = foldl (\<lambda>a c. a * 10 + digit_val c) 0 (takeWhile isdigit r)
      in if 4294967295 < v then 4294967295
         else if neg then (4294967296 - v) mod 4294967296 else v)"

definition atoi :: "string \<Rightarrow> int" where
  \<comment> \<open>\<open>atoi\<close> is \<open>strtol(s, NULL, 10)\<close> narrowed to \<open>int\<close>, of the same 32 bits as \<open>long\<close>\<close>
  "atoi s = toInt s"

definition strtok_r :: "string \<Rightarrow> (string \<times> string) option" where
  \<comment> \<open>\<open>strtok_r(_, ",", &tok_ptr)\<close> on what is left of the string: leading commas are
      skipped; \<open>None\<close> is the null pointer, otherwise the token and what is left after
      the comma that ends it\<close>
  "strtok_r s =
     (let s1 = dropWhile (\<lambda>c. c = CHR '','') s
      in if s1 = [] then None
         else Some (takeWhile (\<lambda>c. c \<noteq> CHR '','') s1,
                    drop 1 (dropWhile (\<lambda>c. c \<noteq> CHR '','') s1)))"

section \<open>Effects\<close>

text \<open>
  What the driver does to the outside is recorded as a list of events, in order: buffer
  allocation and release, the call of a transmission primitive with the arguments it
  reads, writes to the lock flag, and publications on a status property. A cell of an
  allocated buffer is \<open>None\<close> until it is written. An event of a transmission that
  happens while \<open>ir_lock\<close> is false is recorded inside \<open>Unlocked\<close>, so that the
  trace tells whether the lock was held when the hardware was driven.
\<close>

type_synonym cell = "16 word option"

datatype send_fn =
    sendRC5 | sendRC6 | sendNEC | sendSony | sendPanasonic64 | sendJVC | sendSAMSUNG
  | sendWhynter | sendAiwaRCT501 | sendLG | sendMitsubishi | sendDISH | sendSharpRaw
  | sendCOOLIX | sendDenon | sendSherwood | sendRCMM | sendSanyoLC7461 | sendNikai
  | sendMidea | sendMagiQuest | sendLasertag | sendMitsubishi2 | sendGICable
  | sendLutron | sendPioneer | sendLG2

datatype hw_call =
    Send send_fn "64 word" "16 word" "16 word"  \<comment> \<open>\<open>irsend.send...(code, bits, repeat)\<close>\<close>
  | SendGC "cell list"                          \<comment> \<open>\<open>irsend.sendGC(buf, count)\<close>: the \<open>count\<close> cells read\<close>
  | SendPronto "cell list" "16 word"            \<comment> \<open>\<open>irsend.sendPronto(buf, count, repeats)\<close>\<close>
  | SendRaw "cell list" "16 word"               \<comment> \<open>\<open>irsend.sendRaw(buf, count, freq)\<close>\<close>

datatype event =
    Malloc nat                \<comment> \<open>\<open>newCodeArray(size)\<close>: \<open>size\<close> cells requested\<close>
  | Free
  | Hw hw_call
  | LockSet bool              \<comment> \<open>a write to \<open>ir_lock\<close>\<close>
  | Publish string string     \<comment> \<open>\<open>irServiceNode.setProperty(p).send(v)\<close>\<close>
  | Unlocked event            \<comment> \<open>an event of a transmission made while \<open>ir_lock\<close> was false\<close>

section \<open>Counting and converting the values of a payload\<close>

text \<open>
  A loop with 16-bit counters over a string of any length need not end, and a write past
  the end of the allocated buffer has no defined result: the loops answer \<open>None\<close> in
  both cases, and \<open>Some\<close> of what the C function returns otherwise.
\<close>

partial_function (option) countValues_loop :: "string \<Rightarrow> char \<Rightarrow> int \<Rightarrow> nat \<Rightarrow> nat option" where
  "countValues_loop str sep index count =
     (let index' = s16 (indexOf str sep (u32 (index + 1)));
          count' = u16 (int count + 1)
      in if index' \<noteq> - 1 then countValues_loop str sep index' count' else Some count')"

declare countValues_loop.simps [code]

definition countValuesInStr :: "string \<Rightarrow> char \<Rightarrow> nat option" where
  "countValuesInStr str sep = countValues_loop str sep (- 1) 1"

definition newCodeArray :: "nat \<Rightarrow> cell list" where
  \<comment> \<open>the allocation is taken to succeed; a failed one restarts the device\<close>
  "newCodeArray sz = replicate sz None"

text \<open>
  The three codecs end in the same \<open>do ... while (index != -1)\<close> loop, which differs only
  in the conversion applied to each substring (\<open>toInt\<close> for GlobalCache and Raw,
  \<open>strtoul(_, NULL, 16)\<close> for Pronto); it is modelled once, with the conversion as
  argument.
\<close>

partial_function (option) convert_loop ::
  "(string \<Rightarrow> 16 word) \<Rightarrow> string \<Rightarrow> nat \<Rightarrow> nat \<Rightarrow> cell list \<Rightarrow> (nat \<times> cell list) option" where
  "convert_loop conv str count start_from code_array =
     (let index = s16 (indexOf str CHR '','' start_from)
      in if length code_array \<le> count then None
         else
           let code_array' = code_array[count := Some (conv (substring str start_from (u32 index)))];
               start_from' = u16 (index + 1);
               count' = u16 (int count + 1)
           in if index \<noteq> - 1 then convert_loop conv str count' start_from' code_array'
              else Some (count', code_array'))"

declare convert_loop.simps [code]

definition toInt16 :: "string \<Rightarrow> 16 word" where
  \<comment> \<open>\<open>toInt()\<close> stored into a \<open>uint16_t\<close>\<close>
  "toInt16 s = word_of_int (toInt s)"

definition strtoul16w :: "string \<Rightarrow> 16 word" where
  \<comment> \<open>\<open>strtoul(_, NULL, 16)\<close> stored into a \<open>uint16_t\<close>\<close>
  "strtoul16w s = word_of_nat (strtoul16 s)"

section \<open>The long-form codecs\<close>

definition parseStringAndSendGC :: "string \<Rightarrow> (bool \<times> event list) option" where
  "parseStringAndSendGC str =
     (let tmp_str = (if startsWith str ''1:1,1,'' then substring str 6 (length str) else str)
      in case countValuesInStr tmp_str CHR '','' of
           None \<Rightarrow> None
         | Some count \<Rightarrow>
             (case convert_loop toInt16 tmp_str 0 0 (newCodeArray count) of
                None \<Rightarrow> None
              | Some (count', code_array) \<Rightarrow>
                  Some (0 < count',
                        [Malloc count, Hw (SendGC (take count' code_array)), Free])))"

definition parseStringAndSendPronto :: "nat \<Rightarrow> string \<Rightarrow> 16 word \<Rightarrow> (bool \<times> event list) option" where
  "parseStringAndSendPronto kProntoMinLength str repeats =
     (case countValuesInStr str CHR '','' of
        None \<Rightarrow> None
      | Some count0 \<Rightarrow>
          let embedded = (startsWith str ''R'' \<or> startsWith str ''r'');
              index = s16 (indexOf str CHR '','' 0);
              repeats' = (if embedded then toInt16 (substring str (u32 (0 + 1)) (u32 index)) else repeats);
              start_from = (if embedded then u16 (index + 1) else 0);
              count = (if embedded then u16 (int count0 - 1) else count0)
          in if count < kProntoMinLength then Some (False, [])
             else
               (case convert_loop strtoul16w str 0 start_from (newCodeArray count) of
                  None \<Rightarrow> None
                | Some (count', code_array) \<Rightarrow>
                    Some (0 < count',
                          [Malloc count, Hw (SendPronto (take count' code_array) repeats'), Free])))"

definition parseStringAndSendRaw :: "string \<Rightarrow> (bool \<times> event list) option" where
  "parseStringAndSendRaw str =
     (case countValuesInStr str CHR '','' of
        None \<Rightarrow> None
      | Some count0 \<Rightarrow>
          if count0 < 2 then Some (False, [])
          else
            let count = u16 (int count0 - 1);
                raw_array = newCodeArray count;
                index = s16 (indexOf str CHR '','' 0);
                freq = toInt16 (substring str 0 (u32 index));
                start_from = u16 (index + 1)
            in (case convert_loop toInt16 str 0 start_from raw_array of
                  None \<Rightarrow> None
                | Some (count', raw_array') \<Rightarrow>
                    Some (0 < count',
                          [Malloc count, Hw (SendRaw (take count' raw_array') freq), Free])))"

section \<open>Printing numbers\<close>

definition digit_char :: "nat \<Rightarrow> char" where
  \<comment> \<open>\<open>c < 10 ? c + '0' : c + 'A' - 10\<close>\<close>
  "digit_char c = (if c < 10 then char_of (c + 48) else char_of (c + 55))"

function to_base :: "nat \<Rightarrow> nat \<Rightarrow> string" where
  "to_base base n =
     (if n < base \<or> base < 2 then [digit_char n]
      else to_base base (n div base) @ [digit_char (n mod base)])"
  by pat_completeness auto
termination
  by (relation "measure snd") auto

declare to_base.simps [simp del]

definition uint64ToString :: "64 word \<Rightarrow> nat \<Rightarrow> string" where
  \<comment> \<open>the library's \<open>uint64ToString(input, base)\<close>: a base outside 2..36 is taken as 10\<close>
  "uint64ToString input base =
     to_base (if base < 2 \<or> 36 < base then 10 else base) (unat input)"

definition String_of :: "int \<Rightarrow> string" where
  \<comment> \<open>the constructor \<open>String(int)\<close>: decimal, with a sign\<close>
  "String_of i = (if i < 0 then CHR ''-'' # to_base 10 (nat (- i)) else to_base 10 (nat i))"

section \<open>What the transmission library provides\<close>

text \<open>
  The default bit widths, the minimum repeat counts, \<open>kProntoMinLength\<close>, \<open>kRawTick\<close>,
  \<open>hasACState\<close> and \<open>resultToHexidecimal\<close> come from the transmission library, not
  from the driver. They are parameters of the model: the constants are named as the
  driver names them and a record gives them their values.
\<close>

datatype bits_const =
    kRC5Bits | kRC6Mode0Bits | kNECBits | kSony12Bits | kPanasonicBits | kJvcBits
  | kSamsungBits | kWhynterBits | kAiwaRcT501Bits | kLgBits | kMitsubishiBits | kDishBits
  | kSharpBits | kCoolixBits | DENON_BITS | kSherwoodBits | kRCMMBits | kSanyoLC7461Bits
  | kRC5XBits | kNikaiBits | kMideaBits | kMagiquestBits | kLasertagBits | kGicableBits
  | kLutronBits | kPioneerBits

datatype repeat_const =
    kSonyMinRepeat | kAiwaRcT501MinRepeats | kMitsubishiMinRepeat | kDishMinRepeat
  | kSherwoodMinRepeat | kGicableMinRepeat

record decode_results =
  decode_type :: int
  capture_value :: "64 word"        \<comment> \<open>\<open>capture.value\<close>\<close>
  capture_bits :: "16 word"         \<comment> \<open>\<open>capture.bits\<close>\<close>
  rawbuf :: "16 word list"
  rawlen :: "16 word"

record irlib =
  default_bits :: "bits_const \<Rightarrow> 16 word"
  min_repeat :: "repeat_const \<Rightarrow> 16 word"
  kProntoMinLength :: nat
  kRawTick :: nat
  hasACState :: "int \<Rightarrow> bool"
  resultToHexidecimal :: "decode_results \<Rightarrow> string"

text \<open>
  The protocol numbers are those the driver's \<open>switch\<close> gives in its comments;
  \<open>UNKNOWN\<close> is the library's sentinel for a waveform it does not recognise.
\<close>

definition UNKNOWN :: int where "UNKNOWN = - 1"
definition RC5 :: int where "RC5 = 1"
definition RC6 :: int where "RC6 = 2"
definition NEC :: int where "NEC = 3"
definition SONY :: int where "SONY = 4"
definition PANASONIC :: int where "PANASONIC = 5"
definition JVC :: int where "JVC = 6"
definition SAMSUNG :: int where "SAMSUNG = 7"
definition WHYNTER :: int where "WHYNTER = 8"
definition AIWA_RC_T501 :: int where "AIWA_RC_T501 = 9"
definition LG :: int where "LG = 10"
definition MITSUBISHI :: int where "MITSUBISHI = 12"
definition DISH :: int where "DISH = 13"
definition SHARP :: int where "SHARP = 14"
definition COOLIX :: int where "COOLIX = 15"
definition DENON :: int where "DENON = 17"
definition SHERWOOD :: int where "SHERWOOD = 19"
definition RCMM :: int where "RCMM = 21"
definition SANYO_LC7461 :: int where "SANYO_LC7461 = 22"
definition RC5X :: int where "RC5X = 23"
definition PRONTO :: int where "PRONTO = 25"
definition NIKAI :: int where "NIKAI = 29"
definition RAW :: int where "RAW = 30"
definition GLOBALCACHE :: int where "GLOBALCACHE = 31"
definition MIDEA :: int where "MIDEA = 34"
definition MAGIQUEST :: int where "MAGIQUEST = 35"
definition LASERTAG :: int where "LASERTAG = 36"
definition MITSUBISHI2 :: int where "MITSUBISHI2 = 39"
definition GICABLE :: int where "GICABLE = 43"
definition LUTRON :: int where "LUTRON = 47"
definition PIONEER :: int where "PIONEER = 50"
definition LG2 :: int where "LG2 = 51"

section \<open>The dispatch of \<open>sendIRCode\<close>\<close>

text \<open>
  A case of the \<open>switch\<close> for a short-form protocol substitutes the default bit width
  when \<open>bits\<close> is 0, raises \<open>repeat\<close> to the protocol's minimum where the case has a
  \<open>std::max\<close>, and calls the protocol's transmission primitive. The result of a case is
  the success flag, the values of the locals \<open>bits\<close> and \<open>repeat\<close> after it, and the
  events of the case.
\<close>

type_synonym case_result = "bool \<times> 16 word \<times> 16 word \<times> event list"

definition short_case ::
  "irlib \<Rightarrow> send_fn \<Rightarrow> bits_const \<Rightarrow> repeat_const option
     \<Rightarrow> 64 word \<Rightarrow> 16 word \<Rightarrow> 16 word \<Rightarrow> case_result option" where
  "short_case lib f b m code bits repeat =
     (let bits' = (if bits = 0 then default_bits lib b else bits);
          repeat' = (case m of None \<Rightarrow> repeat | Some k \<Rightarrow> max repeat (min_repeat lib k))
      in Some (True, bits', repeat', [Hw (Send f code bits' repeat')]))"

definition codec_case :: "16 word \<Rightarrow> 16 word \<Rightarrow> (bool \<times> event list) option \<Rightarrow> case_result option" where
  "codec_case bits repeat r =
     (case r of None \<Rightarrow> None | Some (success, evs) \<Rightarrow> Some (success, bits, repeat, evs))"

definition switch_ir_type ::
  "irlib \<Rightarrow> int \<Rightarrow> 64 word \<Rightarrow> string \<Rightarrow> 16 word \<Rightarrow> 16 word \<Rightarrow> case_result option" where
  "switch_ir_type lib ir_type code code_str bits repeat =
     (if ir_type = RC5 then short_case lib sendRC5 kRC5Bits None code bits repeat
      else if ir_type = RC6 then short_case lib sendRC6 kRC6Mode0Bits None code bits repeat
      else if ir_type = NEC then short_case lib sendNEC kNECBits None code bits repeat
      else if ir_type = SONY then
        short_case lib sendSony kSony12Bits (Some kSonyMinRepeat) code bits repeat
      else if ir_type = PANASONIC then
        short_case lib sendPanasonic64 kPanasonicBits None code bits repeat
      else if ir_type = JVC then short_case lib sendJVC kJvcBits None code bits repeat
      else if ir_type = SAMSUNG then short_case lib sendSAMSUNG kSamsungBits None code bits repeat
      else if ir_type = WHYNTER then short_case lib sendWhynter kWhynterBits None code bits repeat
      else if ir_type = AIWA_RC_T501 then
        short_case lib sendAiwaRCT501 kAiwaRcT501Bits (Some kAiwaRcT501MinRepeats) code bits repeat
      else if ir_type = LG then short_case lib sendLG kLgBits None code bits repeat
      else if ir_type = MITSUBISHI then
        short_case lib sendMitsubishi kMitsubishiBits (Some kMitsubishiMinRepeat) code bits repeat
      else if ir_type = DISH then
        short_case lib sendDISH kDishBits (Some kDishMinRepeat) code bits repeat
      else if ir_type = SHARP then short_case lib sendSharpRaw kSharpBits None code bits repeat
      else if ir_type = COOLIX then short_case lib sendCOOLIX kCoolixBits None code bits repeat
      else if ir_type = DENON then short_case lib sendDenon DENON_BITS None code bits repeat
      else if ir_type = SHERWOOD then
        short_case lib sendSherwood kSherwoodBits (Some kSherwoodMinRepeat) code bits repeat
      else if ir_type = RCMM then short_case lib sendRCMM kRCMMBits None code bits repeat
      else if ir_type = SANYO_LC7461 then
        short_case lib sendSanyoLC7461 kSanyoLC7461Bits None code bits repeat
      else if ir_type = RC5X then short_case lib sendRC5 kRC5XBits None code bits repeat
      else if ir_type = PRONTO then
        codec_case bits repeat (parseStringAndSendPronto (kProntoMinLength lib) code_str repeat)
      else if ir_type = NIKAI then short_case lib sendNikai kNikaiBits None code bits repeat
      else if ir_type = RAW then codec_case bits repeat (parseStringAndSendRaw code_str)
      else if ir_type = GLOBALCACHE then codec_case bits repeat (parseStringAndSendGC code_str)
      else if ir_type = MIDEA then short_case lib sendMidea kMideaBits None code bits repeat
      else if ir_type = MAGIQUEST then
        short_case lib sendMagiQuest kMagiquestBits None code bits repeat
      else if ir_type = LASERTAG then short_case lib sendLasertag kLasertagBits None code bits repeat
      else if ir_type = MITSUBISHI2 then
        short_case lib sendMitsubishi2 kMitsubishiBits (Some kMitsubishiMinRepeat) code bits repeat
      else if ir_type = GICABLE then
        short_case lib sendGICable kGicableBits (Some kGicableMinRepeat) code bits repeat
      else if ir_type = LUTRON then short_case lib sendLutron kLutronBits None code bits repeat
      else if ir_type = PIONEER then short_case lib sendPioneer kPioneerBits None code bits repeat
      else if ir_type = LG2 then short_case lib sendLG2 kLgBits None code bits repeat
      else Some (False, bits, repeat, []))"

section \<open>The driver's globals and \<open>sendIRCode\<close>\<close>

record driver_state =
  ir_lock :: bool
  gbDecoderEnabled :: bool
  gsCommandString :: string
  gsReceiverString :: string
  trace :: "event list"

text \<open>
  \<open>while (ir_lock) delay(20);\<close> Nothing in the loop changes the flag, so in a sequential
  run it is left at once or never; never is \<open>None\<close>.
\<close>

partial_function (option) wait_for_lock :: "driver_state \<Rightarrow> driver_state option" where
  "wait_for_lock s = (if ir_lock s then wait_for_lock s else Some s)"

definition log_event :: "event \<Rightarrow> driver_state \<Rightarrow> driver_state" where
  "log_event e s = s\<lparr>trace := trace s @ [e]\<rparr>"

definition set_lock :: "bool \<Rightarrow> driver_state \<Rightarrow> driver_state" where
  \<comment> \<open>\<open>ir_lock = b;\<close>\<close>
  "set_lock b s = log_event (LockSet b) (s\<lparr>ir_lock := b\<rparr>)"

definition perform :: "event list \<Rightarrow> driver_state \<Rightarrow> driver_state" where
  \<comment> \<open>the events of the selected case happen in the state the case runs in\<close>
  "perform evs s =
     s\<lparr>trace := trace s @ map (\<lambda>e. if ir_lock s then e else Unlocked e) evs\<rparr>"

definition report_sent ::
  "irlib \<Rightarrow> int \<Rightarrow> 64 word \<Rightarrow> string \<Rightarrow> 16 word \<Rightarrow> 16 word \<Rightarrow> bool
     \<Rightarrow> driver_state \<Rightarrow> driver_state" where
  \<comment> \<open>the part of \<open>sendIRCode\<close> after the lock is released (the debug output is left out)\<close>
  "report_sent lib ir_type code code_str bits repeat success s =
     (if hasACState lib ir_type \<or> ir_type = PRONTO \<or> ir_type = RAW \<or> ir_type = GLOBALCACHE
      then
        (if success then
           (if ir_type = PRONTO \<and> 0 < repeat
            then s\<lparr>gsCommandString :=
                     String_of ir_type @ '',R'' @ String_of (uint repeat) @ '','' @ code_str\<rparr>
            else s\<lparr>gsCommandString := String_of ir_type @ '','' @ code_str\<rparr>)
         else s)
      else
        (if success then
           s\<lparr>gsCommandString :=
                String_of ir_type @ '','' @ uint64ToString code 16 @ '','' @ String_of (uint bits)
                  @ '','' @ String_of (uint repeat)\<rparr>
         else s))"

definition sendIRCode ::
  "irlib \<Rightarrow> int \<Rightarrow> 64 word \<Rightarrow> string \<Rightarrow> 16 word \<Rightarrow> 16 word
     \<Rightarrow> driver_state \<Rightarrow> (bool \<times> driver_state) option" where
  "sendIRCode lib ir_type code code_str bits repeat s =
     (case wait_for_lock s of
        None \<Rightarrow> None
      | Some s0 \<Rightarrow>
          let s1 = set_lock True s0
          in (case switch_ir_type lib ir_type code code_str bits repeat of
                None \<Rightarrow> None
              | Some (success, bits', repeat', evs) \<Rightarrow>
                  let s2 = perform evs s1;
                      s3 = set_lock False s2
                  in Some (success,
                           report_sent lib ir_type code code_str bits' repeat' success s3)))"

section \<open>The receive side\<close>

function usecs_loop :: "nat \<Rightarrow> string \<Rightarrow> nat \<times> string" where
  \<comment> \<open>\<open>for (...; usecs > UINT16_MAX; usecs -= UINT16_MAX)\<close>\<close>
  "usecs_loop usecs str =
     (if 65535 < usecs
      then usecs_loop (usecs - 65535) (str @ uint64ToString 65535 10 @ '',0,'')
      else (usecs, str))"
  by pat_completeness auto
termination
  by (relation "measure fst") auto

declare usecs_loop.simps [simp del]

function rawbuf_loop :: "irlib \<Rightarrow> decode_results \<Rightarrow> nat \<Rightarrow> string \<Rightarrow> string" where
  \<comment> \<open>\<open>for (uint16_t i = ...; i < capture.rawlen; i++)\<close>; \<open>i\<close> stays below \<open>rawlen\<close>,
      itself a \<open>uint16_t\<close>, so \<open>i++\<close> does not wrap\<close>
  "rawbuf_loop lib capture i str =
     (if i < unat (rawlen capture) then
        let (usecs, str1) =
              usecs_loop (u32 (int (unat (rawbuf capture ! i)) * int (kRawTick lib))) str;
            str2 = str1 @ uint64ToString (word_of_nat usecs) 10;
            str3 = (if int i < int (unat (rawlen capture)) - 1 then str2 @ '','' else str2)
        in rawbuf_loop lib capture (Suc i) str3
      else str)"
  by pat_completeness auto
termination
  by (relation "measure (\<lambda>(lib, capture, i, str). unat (rawlen capture) - i)") auto

declare rawbuf_loop.simps [simp del]

definition irDriverLoop :: "irlib \<Rightarrow> decode_results option \<Rightarrow> driver_state \<Rightarrow> driver_state" where
  \<comment> \<open>the argument \<open>decoded\<close> is what \<open>irrecv.decode(&capture)\<close> delivers: \<open>None\<close> when it
      answers false, the capture when it answers true\<close>
  "irDriverLoop lib decoded s =
     (case decoded of
        None \<Rightarrow> s
      | Some capture \<Rightarrow>
          let str0 = String_of (decode_type capture) @ '','' @ resultToHexidecimal lib capture;
              str1 = (if decode_type capture = UNKNOWN
                      then rawbuf_loop lib capture 1 (str0 @ '';'')
                      else str0);
              str2 = (if \<not> hasACState lib (decode_type capture)
                      then str1 @ '','' @ String_of (uint (capture_bits capture))
                      else str1)
          in log_event (Publish ''received'' str2) (s\<lparr>gsReceiverString := str2\<rparr>))"

definition decodeEnableHandler :: "string \<Rightarrow> driver_state \<Rightarrow> bool \<times> driver_state" where
  "decodeEnableHandler v s =
     (if v \<noteq> ''true'' \<and> v \<noteq> ''false'' then (False, s)
      else (True, log_event (Publish ''decoderEnabled'' v) (s\<lparr>gbDecoderEnabled := (v = ''true'')\<rparr>)))"

section \<open>Parsing the hexadecimal code\<close>

definition char_at :: "string \<Rightarrow> nat \<Rightarrow> char" where
  \<comment> \<open>\<open>str[i]\<close> of a NUL-terminated string\<close>
  "char_at str i = (if i < length str then str ! i else CHR 0x00)"

partial_function (option) hex_loop :: "string \<Rightarrow> nat \<Rightarrow> 64 word \<Rightarrow> 64 word option" where
  "hex_loop str offset result =
     (if isxdigit (char_at str offset) then
        let c = char_at str offset;
            result1 = result * 16;
            result2 = (if isdigit c then result1 + word_of_nat (of_char c - of_char CHR ''0'')
                       else if isupper c
                       then result1 + word_of_nat (of_char c - of_char CHR ''A'' + 10)
                       else result1 + word_of_nat (of_char c - of_char CHR ''a'' + 10))
        in hex_loop str (u16 (int offset + 1)) result2
      else Some result)"

definition getUInt64fromHex :: "string \<Rightarrow> 64 word option" where
  "getUInt64fromHex str =
     hex_loop str
       (if char_at str 0 = CHR ''0'' \<and> (char_at str 1 = CHR ''x'' \<or> char_at str 1 = CHR ''X'')
        then 2 else 0)
       0"

section \<open>The command parser\<close>

text \<open>
  \<open>processCommand\<close> hands the first token to \<open>strtoul\<close> without a check: on a command
  without any token that is a null pointer, and the call has no defined result
  (\<open>None\<close>).
\<close>

definition processCommand :: "irlib \<Rightarrow> string \<Rightarrow> driver_state \<Rightarrow> (bool \<times> driver_state) option" where
  "processCommand lib commandString s =
     (case strtok_r commandString of
        None \<Rightarrow> None
      | Some (tok1, rest1) \<Rightarrow>
          let ir_type = s32 (int (strtoul10 tok1))
          in (case strtok_r rest1 of
                None \<Rightarrow> Some (False, s)
              | Some (tok2, rest2) \<Rightarrow>
                  (case getUInt64fromHex tok2 of
                     None \<Rightarrow> None
                   | Some code \<Rightarrow>
                       let next3 = strtok_r rest2;
                           nbits = (case next3 of None \<Rightarrow> 0
                                    | Some (tok3, rest3) \<Rightarrow> word_of_int (atoi tok3));
                           next4 = (case next3 of None \<Rightarrow> None
                                    | Some (tok3, rest3) \<Rightarrow> strtok_r rest3);
                           repeat = (case next4 of None \<Rightarrow> 0
                                     | Some (tok4, rest4) \<Rightarrow> word_of_int (atoi tok4))
                       in sendIRCode lib ir_type code
                            (substring commandString
                               (u32 (indexOf commandString CHR '','' 0 + 1))
                               (length commandString))
                            nbits repeat s)))"

section \<open>The specification's notions\<close>

text \<open>
  The values of a payload, as the specification speaks of them: the substrings between
  the commas, in order. A payload without a comma has one value, and an empty substring
  counts.
\<close>

fun split_at :: "char \<Rightarrow> string \<Rightarrow> string list" where
  "split_at sep [] = [[]]"
| "split_at sep (c # cs) =
     (if c = sep then [] # split_at sep cs
      else (case split_at sep cs of [] \<Rightarrow> [[c]] | t # ts \<Rightarrow> (c # t) # ts))"

abbreviation values_of :: "string \<Rightarrow> string list" where
  "values_of str \<equiv> split_at CHR '','' str"

text \<open>The events of a transmission made under the lock: allocation, hardware call, release.\<close>

fun transmission_event :: "event \<Rightarrow> bool" where
  "transmission_event (Malloc n) = True"
| "transmission_event Free = True"
| "transmission_event (Hw h) = True"
| "transmission_event e = False"

text \<open>The protocols whose case raises the repeat count to a minimum.\<close>

definition min_repeat_protocols :: "(int \<times> send_fn \<times> bits_const \<times> repeat_const) list" where
  "min_repeat_protocols =
     [(SONY, sendSony, kSony12Bits, kSonyMinRepeat),
      (AIWA_RC_T501, sendAiwaRCT501, kAiwaRcT501Bits, kAiwaRcT501MinRepeats),
      (MITSUBISHI, sendMitsubishi, kMitsubishiBits, kMitsubishiMinRepeat),
      (DISH, sendDISH, kDishBits, kDishMinRepeat),
      (SHERWOOD, sendSherwood, kSherwoodBits, kSherwoodMinRepeat),
      (MITSUBISHI2, sendMitsubishi2, kMitsubishiBits, kMitsubishiMinRepeat),
      (GICABLE, sendGICable, kGicableBits, kGicableMinRepeat)]"

text \<open>
  The received string as the specification describes it. A duration is written as the
  pair \<open>65535\<close>, \<open>0\<close> for as long as more than 65535 remains of it, then as what
  remains; all items are joined by commas.
\<close>

function duration_items :: "nat \<Rightarrow> string list" where
  "duration_items d =
     (if 65535 < d then ''65535'' # ''0'' # duration_items (d - 65535)
      else [to_base 10 d])"
  by pat_completeness auto
termination
  by (relation "measure id") auto

declare duration_items.simps [simp del]

fun comma_join :: "string list \<Rightarrow> string" where
  "comma_join [] = []"
| "comma_join [x] = x"
| "comma_join (x # y # ys) = x @ '','' @ comma_join (y # ys)"

definition durations :: "irlib \<Rightarrow> decode_results \<Rightarrow> nat list" where
  \<comment> \<open>the marks and spaces of a capture in microseconds: entry 0 of the buffer is the gap
      before the message and is not one of them\<close>
  "durations lib capture =
     map (\<lambda>t. u32 (int (unat t) * int (kRawTick lib)))
         (drop 1 (take (unat (rawlen capture)) (rawbuf capture)))"

definition received_format :: "irlib \<Rightarrow> decode_results \<Rightarrow> string" where
  "received_format lib capture =
     String_of (decode_type capture) @ '','' @ resultToHexidecimal lib capture
     @ (if decode_type capture = UNKNOWN
        then '';'' @ comma_join (concat (map duration_items (durations lib capture)))
        else [])
     @ (if \<not> hasACState lib (decode_type capture)
        then '','' @ String_of (uint (capture_bits capture))
        else [])"

text \<open>The value of a string of hexadecimal digits.\<close>

definition hex_value :: "string \<Rightarrow> nat" where
  "hex_value ds = foldl (\<lambda>a c. a * 16 + digit_val c) 0 ds"

definition hex_step :: "64 word \<Rightarrow> char \<Rightarrow> 64 word" where
  \<comment> \<open>one more digit, in 64 bits\<close>
  "hex_step a c = a * 16 + word_of_nat (digit_val c)"

definition skip_0x :: "string \<Rightarrow> string" where
  "skip_0x str = (if startsWith str ''0x'' \<or> startsWith str ''0X'' then drop 2 str else str)"

section \<open>An instance of the library for concrete runs\<close>

definition example_lib :: irlib where
  "example_lib =
     \<lparr>default_bits = (\<lambda>b. 32),
      min_repeat = (\<lambda>m. if m = kSonyMinRepeat then 2 else 1),
      kProntoMinLength = 6,
      kRawTick = 2,
      hasACState = (\<lambda>t. False),
      resultToHexidecimal = (\<lambda>capture. uint64ToString (capture_value capture) 16)\<rparr>"

definition idle_state :: driver_state where
  "idle_state =
     \<lparr>ir_lock = False, gbDecoderEnabled = False, gsCommandString = ''3,FF,32,0'',
      gsReceiverString = [], trace = []\<rparr>"

section \<open>Evaluation rules\<close>

lemmas loop_eval = countValuesInStr_def countValues_loop.simps convert_loop.simps indexOf_def
  substring_def u16_def s16_def u32_def newCodeArray_def startsWith_def

lemmas conv_eval = toInt16_def toInt_def strip_sign_def isspace_def isdigit_def digit_val_def
  strtoul16w_def strtoul16_def isxdigit_def isupper_def

lemma replicate_numeral: "replicate (numeral k) x = x # replicate (pred_numeral k) x"
  by (simp add: numeral_eq_Suc)

lemma list_update_Cons_numeral: "(x # xs)[numeral k := y] = x # xs[pred_numeral k := y]"
  by (simp add: numeral_eq_Suc)

lemmas list_eval = replicate_numeral list_update_Cons_numeral

lemmas protocol_defs = UNKNOWN_def RC5_def RC6_def NEC_def SONY_def PANASONIC_def JVC_def
  SAMSUNG_def WHYNTER_def AIWA_RC_T501_def LG_def MITSUBISHI_def DISH_def SHARP_def
  COOLIX_def DENON_def SHERWOOD_def RCMM_def SANYO_LC7461_def RC5X_def PRONTO_def
  NIKAI_def RAW_def GLOBALCACHE_def MIDEA_def MAGIQUEST_def LASERTAG_def MITSUBISHI2_def
  GICABLE_def LUTRON_def PIONEER_def LG2_def

lemmas print_eval = String_of_def uint64ToString_def to_base.simps digit_char_def char_of_eq_iff

lemmas send_eval = sendIRCode_def switch_ir_type_def protocol_defs short_case_def codec_case_def
  set_lock_def log_event_def perform_def report_sent_def

lemma uint64ToString_65535: "uint64ToString 65535 10 = ''65535''"
  by (simp add: print_eval)

section \<open>The loops on payloads of a length the indices can hold\<close>

lemma split_at_ne: "split_at sep s \<noteq> []"
  by (induction s) (auto split: list.splits)

lemma length_split_at: "length (split_at sep s) \<le> Suc (length s)"
  by (induction s) (auto split: list.splits)

lemma strchr_None_split: "strchr s sep = None \<Longrightarrow> split_at sep s = [s]"
  by (induction s) (auto split: if_splits)

lemma strchr_Some_split:
  "strchr s sep = Some k \<Longrightarrow> k < length s \<and> split_at sep s = take k s # split_at sep (drop (Suc k) s)"
proof (induction s arbitrary: k)
  case Nil
  then show ?case by simp
next
  case (Cons c cs)
  show ?case
  proof (cases "c = sep")
    case True
    with Cons.prems show ?thesis by simp
  next
    case False
    with Cons.prems obtain j where j: "strchr cs sep = Some j" "k = Suc j"
      by auto
    from Cons.IH [OF j(1)] False j(2) show ?thesis
      by simp
  qed
qed

lemma s16_small: "0 \<le> i \<Longrightarrow> i < 32768 \<Longrightarrow> s16 i = i"
  by (simp add: s16_def)

lemma s16_minus1: "s16 (- 1) = - 1"
  by (simp add: s16_def)

lemma u32_nat: "n < 4294967296 \<Longrightarrow> u32 (int n) = n"
  by (simp add: u32_def)

lemma u32_minus1: "u32 (- 1) = 4294967295"
  by (simp add: u32_def)

lemma u32_one: "u32 1 = 1"
  by (simp add: u32_def)

lemma u16_nat: "n < 65536 \<Longrightarrow> u16 (int n) = n"
  by (simp add: u16_def)

lemma u16_zero: "u16 0 = 0"
  by (simp add: u16_def)

lemma indexOf_cases:
  assumes "from \<le> length str"
  shows "(indexOf str sep from = - 1 \<and> split_at sep (drop from str) = [drop from str])
       \<or> (\<exists>k. indexOf str sep from = int (from + k) \<and> from + k < length str
             \<and> split_at sep (drop from str)
                 = take k (drop from str) # split_at sep (drop (Suc (from + k)) str))"
proof (cases "strchr (drop from str) sep")
  case None
  then show ?thesis
    using strchr_None_split [OF None] by (simp add: indexOf_def)
next
  case (Some k)
  from strchr_Some_split [OF Some] have "k < length str - from"
    and "split_at sep (drop from str) = take k (drop from str) # split_at sep (drop (Suc k) (drop from str))"
    by simp_all
  with Some show ?thesis
    by (auto simp: indexOf_def add.commute)
qed

lemma first_comma_cases:
  "(indexOf str CHR '','' 0 = - 1 \<and> values_of str = [str])
   \<or> (\<exists>k. indexOf str CHR '','' 0 = int k \<and> k < length str
          \<and> values_of str = take k str # values_of (drop (Suc k) str))"
  using indexOf_cases [of 0 str "CHR '',''"] by simp

lemma countValues_loop_eq:
  "length str < 32767 \<Longrightarrow> from \<le> length str
   \<Longrightarrow> count + length (split_at sep (drop from str)) < 65536
   \<Longrightarrow> countValues_loop str sep (int from - 1) count
       = Some (count + length (split_at sep (drop from str)))"
proof (induction "length str - from" arbitrary: "from" count rule: less_induct)
  case less
  have u: "u32 (int from) = from"
    using less.prems by (simp add: u32_def)
  have c: "u16 (int count + 1) = Suc count"
    using less.prems(3) split_at_ne [of sep "drop from str"]
    by (cases "split_at sep (drop from str)") (simp_all add: u16_def nat_add_distrib)
  from indexOf_cases [OF less.prems(2), of sep]
  show ?case
  proof (elim disjE conjE exE)
    assume "indexOf str sep from = - 1" "split_at sep (drop from str) = [drop from str]"
    then show ?thesis
      by (subst countValues_loop.simps) (simp add: u c s16_minus1)
  next
    fix k
    assume i: "indexOf str sep from = int (from + k)" and lt: "from + k < length str"
      and sp: "split_at sep (drop from str)
                 = take k (drop from str) # split_at sep (drop (Suc (from + k)) str)"
    have s: "s16 (int from + int k) = int from + int k"
      using lt less.prems(1) by (intro s16_small) simp_all
    have "countValues_loop str sep (int (Suc (from + k)) - 1) (Suc count)
          = Some (Suc count + length (split_at sep (drop (Suc (from + k)) str)))"
      using lt less.prems sp by (intro less.hyps) simp_all
    then show ?thesis
      by (subst countValues_loop.simps) (simp add: u c i s sp)
  qed
qed

lemma countValuesInStr_eq:
  assumes "length str < 32767"
  shows "countValuesInStr str sep = Some (Suc (length (split_at sep str)))"
proof -
  have "length (split_at sep str) \<le> Suc (length str)"
    by (rule length_split_at)
  with assms have "1 + length (split_at sep (drop 0 str)) < 65536"
    by simp
  with assms countValues_loop_eq [where str = str and sep = sep and ?from = 0 and count = 1]
  show ?thesis
    by (simp add: countValuesInStr_def)
qed

lemma substring_to_end:
  "from \<le> length str \<Longrightarrow> length str \<le> r \<Longrightarrow> substring str from r = drop from str"
  by (simp add: substring_def Let_def)

lemma substring_mid:
  "from + k < length str \<Longrightarrow> substring str from (from + k) = take k (drop from str)"
  by (simp add: substring_def Let_def min_def)

lemma substring_from1:
  assumes "0 < k" "k < length str"
  shows "substring str 1 k = tl (take k str)"
proof -
  from assms obtain j where j: "k = 1 + j"
    by (cases k) simp_all
  with assms substring_mid [of 1 j str] show ?thesis
    by (simp add: drop_Suc tl_take drop_take)
qed

lemma convert_loop_eq:
  "length str < 32767 \<Longrightarrow> from \<le> length str
   \<Longrightarrow> count + length (values_of (drop from str)) \<le> length arr
   \<Longrightarrow> length arr < 65536
   \<Longrightarrow> convert_loop conv str count from arr
       = Some (count + length (values_of (drop from str)),
               take count arr @ map (\<lambda>t. Some (conv t)) (values_of (drop from str))
                 @ drop (count + length (values_of (drop from str))) arr)"
proof (induction "length str - from" arbitrary: "from" count arr rule: less_induct)
  case less
  let ?sep = "CHR '',''"
  have lt: "count < length arr"
    using less.prems(3) split_at_ne [of ?sep "drop from str"]
    by (cases "split_at ?sep (drop from str)") simp_all
  then have c: "u16 (int count + 1) = Suc count"
    using less.prems(4) by (simp add: u16_def nat_add_distrib)
  from indexOf_cases [OF less.prems(2), of ?sep]
  show ?case
  proof (elim disjE conjE exE)
    assume i: "indexOf str ?sep from = - 1"
      and sp: "split_at ?sep (drop from str) = [drop from str]"
    have "substring str from 4294967295 = drop from str"
      using less.prems(1,2) by (intro substring_to_end) simp_all
    then show ?thesis
      using lt
      by (subst convert_loop.simps)
         (simp add: i c sp s16_minus1 u32_minus1 upd_conv_take_nth_drop)
  next
    fix k
    assume i: "indexOf str ?sep from = int (from + k)" and b: "from + k < length str"
      and sp: "split_at ?sep (drop from str)
                 = take k (drop from str) # split_at ?sep (drop (Suc (from + k)) str)"
    let ?v = "Some (conv (take k (drop from str)))"
    let ?arr = "arr[count := ?v]"
    let ?rest = "split_at ?sep (drop (Suc (from + k)) str)"
    have s: "s16 (int from + int k) = int from + int k"
      using b less.prems(1) by (intro s16_small) simp_all
    have u: "u32 (int from + int k) = from + k"
      using b less.prems(1) by (simp add: u32_def nat_add_distrib)
    have st: "u16 (int from + int k + 1) = Suc (from + k)"
      using b less.prems(1) by (simp add: u16_def nat_add_distrib)
    have sub: "substring str from (from + k) = take k (drop from str)"
      using b by (rule substring_mid)
    have ih: "convert_loop conv str (Suc count) (Suc (from + k)) ?arr
          = Some (Suc count + length ?rest,
                  take (Suc count) ?arr @ map (\<lambda>t. Some (conv t)) ?rest
                    @ drop (Suc count + length ?rest) ?arr)"
      using b less.prems sp by (intro less.hyps) simp_all
    have t: "take (Suc count) ?arr = take count arr @ [?v]"
      using lt by (simp add: take_Suc_conv_app_nth)
    have "convert_loop conv str count from arr = convert_loop conv str (Suc count) (Suc (from + k)) ?arr"
      using lt by (subst convert_loop.simps) (simp add: i s u st c sub)
    with ih t show ?thesis
      by (simp add: sp)
  qed
qed

lemma convert_loop_fresh:
  assumes "length str < 32767" "from \<le> length str"
    and "length (values_of (drop from str)) \<le> n" "n < 65536"
  shows "convert_loop conv str 0 from (newCodeArray n)
       = Some (length (values_of (drop from str)),
               map (\<lambda>t. Some (conv t)) (values_of (drop from str))
                 @ replicate (n - length (values_of (drop from str))) None)"
  using convert_loop_eq [where str = str and ?from = "from" and count = 0
      and arr = "newCodeArray n" and conv = conv] assms
  by (simp add: newCodeArray_def)

section \<open>What the codecs do with a payload shorter than 32767 characters\<close>

lemma parseStringAndSendGC_eq:
  assumes "length str < 32767"
  shows "parseStringAndSendGC str =
     (let tmp_str = (if startsWith str ''1:1,1,'' then drop 6 str else str)
      in Some (True, [Malloc (Suc (length (values_of tmp_str))),
                      Hw (SendGC (map (\<lambda>t. Some (toInt16 t)) (values_of tmp_str))),
                      Free]))"
proof -
  define tmp where "tmp = (if startsWith str ''1:1,1,'' then drop 6 str else str)"
  have tmp: "(if startsWith str ''1:1,1,'' then substring str 6 (length str) else str) = tmp"
    by (simp add: tmp_def startsWith_def substring_to_end)
  have len: "length tmp < 32767"
    using assms by (auto simp: tmp_def)
  have n: "length (values_of tmp) \<le> Suc (length tmp)"
    by (rule length_split_at)
  have cnt: "countValuesInStr tmp CHR '','' = Some (Suc (length (values_of tmp)))"
    using len by (rule countValuesInStr_eq)
  have loop: "convert_loop toInt16 tmp 0 0 (newCodeArray (Suc (length (values_of tmp))))
       = Some (length (values_of tmp),
               map (\<lambda>t. Some (toInt16 t)) (values_of tmp) @ replicate 1 None)"
    using convert_loop_fresh [where str = tmp and ?from = 0 and conv = toInt16
        and n = "Suc (length (values_of tmp))"] len n
    by simp
  have "0 < length (values_of tmp)"
    using split_at_ne [of "CHR '',''" tmp] by simp
  then show ?thesis
    unfolding parseStringAndSendGC_def tmp Let_def tmp_def [symmetric]
    by (simp add: cnt loop)
qed

lemma parseStringAndSendRaw_eq:
  assumes "length str < 32767"
  shows "parseStringAndSendRaw str =
     Some (True, [Malloc (length (values_of str)),
                  Hw (SendRaw (map (\<lambda>t. Some (toInt16 t))
                                 (if length (values_of str) = 1 then values_of str
                                  else tl (values_of str)))
                              (toInt16 (hd (values_of str)))),
                  Free])"
proof -
  have n: "length (values_of str) \<le> Suc (length str)"
    by (rule length_split_at)
  have cnt: "countValuesInStr str CHR '','' = Some (Suc (length (values_of str)))"
    using assms by (rule countValuesInStr_eq)
  have c: "u16 (int (length (values_of str))) = length (values_of str)"
    using n assms by (intro u16_nat) simp
  from first_comma_cases [of str] show ?thesis
  proof (elim disjE conjE exE)
    assume i: "indexOf str CHR '','' 0 = - 1" and sp: "values_of str = [str]"
    have sub: "substring str 0 4294967295 = str"
      using assms substring_to_end [of 0 str 4294967295] by simp
    have loop: "convert_loop toInt16 str 0 0 (newCodeArray (Suc 0))
       = Some (Suc 0, [Some (toInt16 str)])"
      using convert_loop_fresh [where str = str and ?from = 0 and conv = toInt16 and n = "Suc 0"]
        assms sp by simp
    show ?thesis
      unfolding parseStringAndSendRaw_def Let_def
      by (simp add: cnt c i sp s16_minus1 u32_minus1 sub loop u16_def)
  next
    fix k
    assume i: "indexOf str CHR '','' 0 = int k" and k: "k < length str"
      and sp: "values_of str = take k str # values_of (drop (Suc k) str)"
    have s: "s16 (int k) = int k"
      using k assms by (intro s16_small) simp_all
    have u: "u32 (int k) = k"
      using k assms by (intro u32_nat) simp
    have st: "u16 (int k + 1) = Suc k"
      using k assms by (simp add: u16_def nat_add_distrib)
    have sub: "substring str 0 k = take k str"
      using substring_mid [of 0 k str] k by simp
    have ne: "values_of (drop (Suc k) str) \<noteq> []"
      by (rule split_at_ne)
    have loop: "convert_loop toInt16 str 0 (Suc k) (newCodeArray (Suc (length (values_of (drop (Suc k) str)))))
       = Some (length (values_of (drop (Suc k) str)),
               map (\<lambda>t. Some (toInt16 t)) (values_of (drop (Suc k) str)) @ replicate 1 None)"
      using convert_loop_fresh [where str = str and ?from = "Suc k" and conv = toInt16
          and n = "Suc (length (values_of (drop (Suc k) str)))"] assms k n sp
      by simp
    show ?thesis
      unfolding parseStringAndSendRaw_def Let_def
      using ne c by (simp add: cnt i sp s u st sub loop)
  qed
qed

lemma parseStringAndSendPronto_plain:
  assumes "length str < 32767" and "\<not> (startsWith str ''R'' \<or> startsWith str ''r'')"
  shows "parseStringAndSendPronto kmin str repeats =
     (if Suc (length (values_of str)) < kmin then Some (False, [])
      else Some (True, [Malloc (Suc (length (values_of str))),
                        Hw (SendPronto (map (\<lambda>t. Some (strtoul16w t)) (values_of str)) repeats),
                        Free]))"
proof -
  have n: "length (values_of str) \<le> Suc (length str)"
    by (rule length_split_at)
  have cnt: "countValuesInStr str CHR '','' = Some (Suc (length (values_of str)))"
    using assms(1) by (rule countValuesInStr_eq)
  have loop: "convert_loop strtoul16w str 0 0 (newCodeArray (Suc (length (values_of str))))
       = Some (length (values_of str),
               map (\<lambda>t. Some (strtoul16w t)) (values_of str) @ replicate 1 None)"
    using convert_loop_fresh [where str = str and ?from = 0 and conv = strtoul16w
        and n = "Suc (length (values_of str))"] assms(1) n
    by simp
  have "0 < length (values_of str)"
    using split_at_ne [of "CHR '',''" str] by simp
  then show ?thesis
    unfolding parseStringAndSendPronto_def Let_def
    using assms(2) by (simp add: cnt loop)
qed

lemma parseStringAndSendPronto_embedded:
  assumes "length str < 32767" and "startsWith str ''R'' \<or> startsWith str ''r''"
  shows "parseStringAndSendPronto kmin str repeats =
     (if length (values_of str) < kmin then Some (False, [])
      else Some (True, [Malloc (length (values_of str)),
                        Hw (SendPronto (map (\<lambda>t. Some (strtoul16w t))
                                          (if length (values_of str) = 1 then values_of str
                                           else tl (values_of str)))
                                       (toInt16 (tl (hd (values_of str))))),
                        Free]))"
proof -
  have n: "length (values_of str) \<le> Suc (length str)"
    by (rule length_split_at)
  have cnt: "countValuesInStr str CHR '','' = Some (Suc (length (values_of str)))"
    using assms(1) by (rule countValuesInStr_eq)
  have c: "u16 (int (length (values_of str))) = length (values_of str)"
    using n assms(1) by (intro u16_nat) simp
  from assms(2) obtain r where str: "str = CHR ''R'' # r \<or> str = CHR ''r'' # r"
    by (cases str) (auto simp: startsWith_def)
  from first_comma_cases [of str] show ?thesis
  proof (elim disjE conjE exE)
    assume i: "indexOf str CHR '','' 0 = - 1" and sp: "values_of str = [str]"
    have sub: "substring str (Suc 0) 4294967295 = tl str"
      using assms(1) str substring_to_end [of "Suc 0" str 4294967295] by (auto simp: drop_Suc)
    have loop: "convert_loop strtoul16w str 0 0 (newCodeArray (Suc 0))
       = Some (Suc 0, [Some (strtoul16w str)])"
      using convert_loop_fresh [where str = str and ?from = 0 and conv = strtoul16w and n = "Suc 0"]
        assms(1) sp by simp
    show ?thesis
      unfolding parseStringAndSendPronto_def Let_def
      using assms(2)
      by (simp add: cnt i sp s16_minus1 u32_minus1 u32_one u16_zero sub loop u16_def)
  next
    fix k
    assume i: "indexOf str CHR '','' 0 = int k" and k: "k < length str"
      and sp: "values_of str = take k str # values_of (drop (Suc k) str)"
    have k0: "0 < k"
    proof (rule ccontr)
      assume "\<not> 0 < k"
      with i have "indexOf str CHR '','' 0 = 0" by simp
      with str show False
        by (auto simp: indexOf_def split: option.splits if_splits)
    qed
    have s: "s16 (int k) = int k"
      using k assms(1) by (intro s16_small) simp_all
    have u: "u32 (int k) = k"
      using k assms(1) by (intro u32_nat) simp
    have st: "u16 (int k + 1) = Suc k"
      using k assms(1) by (simp add: u16_def nat_add_distrib)
    have sub: "substring str (Suc 0) k = tl (take k str)"
      using substring_from1 [OF k0 k] by simp
    have ne: "values_of (drop (Suc k) str) \<noteq> []"
      by (rule split_at_ne)
    have loop: "convert_loop strtoul16w str 0 (Suc k) (newCodeArray (Suc (length (values_of (drop (Suc k) str)))))
       = Some (length (values_of (drop (Suc k) str)),
               map (\<lambda>t. Some (strtoul16w t)) (values_of (drop (Suc k) str)) @ replicate 1 None)"
      using convert_loop_fresh [where str = str and ?from = "Suc k" and conv = strtoul16w
          and n = "Suc (length (values_of (drop (Suc k) str)))"] assms(1) k n sp
      by simp
    show ?thesis
      unfolding parseStringAndSendPronto_def Let_def
      using ne c assms(2) by (simp add: cnt i sp s u st u32_one sub loop)
  qed
qed

lemma gc_prefix_tmp:
  "(if startsWith (''1:1,1,'' @ s) ''1:1,1,''
    then substring (''1:1,1,'' @ s) 6 (length (''1:1,1,'' @ s)) else ''1:1,1,'' @ s) = s"
  by (simp add: startsWith_def substring_def)

section \<open>Facts about \<open>sendIRCode\<close>\<close>

lemma wait_for_lock_idle: "\<not> ir_lock s \<Longrightarrow> wait_for_lock s = Some s"
  by (subst wait_for_lock.simps) simp

lemma wait_for_lock_Some:
  assumes "wait_for_lock s = Some s0"
  shows "s0 = s \<and> \<not> ir_lock s"
  using assms
proof (rule wait_for_lock.raw_induct [rotated])
  fix f s s0
  assume "\<And>s s0. f s = Some s0 \<Longrightarrow> s0 = s \<and> \<not> ir_lock s"
    and "(if ir_lock s then f s else Some s) = Some s0"
  then show "s0 = s \<and> \<not> ir_lock s"
    by (auto split: if_splits)
qed

lemma trace_report_sent [simp]:
  "trace (report_sent lib ir_type code code_str bits repeat success s) = trace s"
  by (simp add: report_sent_def)

lemma ir_lock_report_sent [simp]:
  "ir_lock (report_sent lib ir_type code code_str bits repeat success s) = ir_lock s"
  by (simp add: report_sent_def)

lemma short_case_events:
  "short_case lib f b m code bits repeat = Some (ok, bits', repeat', evs) \<Longrightarrow> e \<in> set evs \<Longrightarrow> transmission_event e"
  by (auto simp: short_case_def Let_def)

lemma gc_events: "parseStringAndSendGC str = Some (ok, evs) \<Longrightarrow> e \<in> set evs \<Longrightarrow> transmission_event e"
  by (auto simp: parseStringAndSendGC_def Let_def split: option.splits)

lemma raw_events: "parseStringAndSendRaw str = Some (ok, evs) \<Longrightarrow> e \<in> set evs \<Longrightarrow> transmission_event e"
  by (auto simp: parseStringAndSendRaw_def Let_def split: option.splits if_splits)

lemma pronto_events:
  "parseStringAndSendPronto kmin str repeats = Some (ok, evs) \<Longrightarrow> e \<in> set evs \<Longrightarrow> transmission_event e"
  by (auto simp: parseStringAndSendPronto_def Let_def split: option.splits if_splits)

lemma codec_case_events:
  "codec_case bits repeat (parseStringAndSendGC str) = Some (ok, bits', repeat', evs)
     \<Longrightarrow> e \<in> set evs \<Longrightarrow> transmission_event e"
  "codec_case bits repeat (parseStringAndSendRaw str) = Some (ok, bits', repeat', evs)
     \<Longrightarrow> e \<in> set evs \<Longrightarrow> transmission_event e"
  "codec_case bits repeat (parseStringAndSendPronto kmin str repeat) = Some (ok, bits', repeat', evs)
     \<Longrightarrow> e \<in> set evs \<Longrightarrow> transmission_event e"
  by (auto simp: codec_case_def split: option.splits dest: gc_events raw_events pronto_events)

lemma switch_ir_type_events:
  assumes "switch_ir_type lib ir_type code code_str bits repeat = Some (ok, bits', repeat', evs)"
  shows "\<forall>e\<in>set evs. transmission_event e"
proof
  fix e
  assume "e \<in> set evs"
  with assms show "transmission_event e"
    unfolding switch_ir_type_def
    by (auto split: if_splits dest: short_case_events codec_case_events)
qed

lemma wait_for_lock_held: "ir_lock s \<Longrightarrow> wait_for_lock s = None"
  using wait_for_lock_Some [of s] by (cases "wait_for_lock s") auto

lemma short_form_events:
  assumes "switch_ir_type lib ir_type code code_str bits repeat = Some (True, bits', repeat', evs)"
    and "ir_type \<noteq> PRONTO" "ir_type \<noteq> RAW" "ir_type \<noteq> GLOBALCACHE"
  shows "\<exists>f. evs = [Hw (Send f code bits' repeat')]"
  using assms unfolding switch_ir_type_def
  by (auto split: if_splits simp: short_case_def Let_def)

lemma long_form_repeat:
  assumes "switch_ir_type lib ir_type code code_str bits repeat = Some (ok, bits', repeat', evs)"
    and "ir_type = PRONTO \<or> ir_type = RAW \<or> ir_type = GLOBALCACHE"
  shows "repeat' = repeat"
  using assms unfolding switch_ir_type_def
  by (auto simp: protocol_defs codec_case_def split: option.splits)

lemma switch_min_repeat:
  "(ir_type, f, b, m) \<in> set min_repeat_protocols
   \<Longrightarrow> switch_ir_type lib ir_type code code_str bits repeat
       = short_case lib f b (Some m) code bits repeat"
  by (auto simp: min_repeat_protocols_def switch_ir_type_def protocol_defs)

lemma short_case_returns: "\<exists>y. short_case lib f b m code bits repeat = Some y"
  by (auto simp: short_case_def Let_def)

lemma codec_case_returns: "r = Some x \<Longrightarrow> \<exists>y. codec_case bits repeat r = Some y"
  by (cases x) (auto simp: codec_case_def)

lemma pronto_returns:
  assumes "length str < 32767"
  shows "\<exists>p. parseStringAndSendPronto kmin str repeats = Some p"
proof (cases "startsWith str ''R'' \<or> startsWith str ''r''")
  case True
  show ?thesis
    unfolding parseStringAndSendPronto_embedded [OF assms True] by auto
next
  case False
  show ?thesis
    unfolding parseStringAndSendPronto_plain [OF assms False] by auto
qed

lemma switch_ir_type_returns:
  assumes "length code_str < 32767"
  shows "\<exists>r. switch_ir_type lib ir_type code code_str bits repeat = Some r"
proof -
  obtain g where g: "parseStringAndSendGC code_str = Some g"
    using parseStringAndSendGC_eq [OF assms] unfolding Let_def by blast
  obtain w where w: "parseStringAndSendRaw code_str = Some w"
    using parseStringAndSendRaw_eq [OF assms] by blast
  obtain p where p: "parseStringAndSendPronto (kProntoMinLength lib) code_str repeat = Some p"
    using pronto_returns [OF assms] by blast
  have "switch_ir_type lib ir_type code code_str bits repeat \<noteq> None"
  proof
    assume "switch_ir_type lib ir_type code code_str bits repeat = None"
    then show False
      unfolding switch_ir_type_def
      by (auto split: if_splits prod.splits simp: short_case_def codec_case_def g w p Let_def)
  qed
  then show ?thesis
    by blast
qed

section \<open>Facts about the receive formatter\<close>

lemma duration_items_ne: "duration_items d \<noteq> []"
  by (subst duration_items.simps) simp

lemma comma_join_append:
  "xs \<noteq> [] \<Longrightarrow> ys \<noteq> [] \<Longrightarrow> comma_join (xs @ ys) = comma_join xs @ '','' @ comma_join ys"
proof (induction xs rule: comma_join.induct)
  case 1
  then show ?case by simp
next
  case (2 x)
  then show ?case by (cases ys) simp_all
next
  case (3 x y zs)
  then show ?case by simp
qed

lemma comma_join_Cons: "ys \<noteq> [] \<Longrightarrow> comma_join (x # ys) = x @ '','' @ comma_join ys"
  by (cases ys) simp_all

lemma usecs_loop_eq:
  "usecs_loop d str = (r, out)
   \<Longrightarrow> out @ to_base 10 r = str @ comma_join (duration_items d) \<and> r \<le> d"
proof (induction d str rule: usecs_loop.induct)
  case (1 usecs str)
  show ?case
  proof (cases "65535 < usecs")
    case True
    with "1.prems" have "usecs_loop (usecs - 65535) (str @ uint64ToString 65535 10 @ '',0,'') = (r, out)"
      by (subst (asm) usecs_loop.simps) simp
    from "1.IH" [OF True this]
    have ih: "out @ to_base 10 r
        = (str @ uint64ToString 65535 10 @ '',0,'') @ comma_join (duration_items (usecs - 65535))"
      and le: "r \<le> usecs - 65535"
      by simp_all
    have "comma_join (duration_items usecs)
        = ''65535'' @ '','' @ ''0'' @ '','' @ comma_join (duration_items (usecs - 65535))"
      using True duration_items_ne [of "usecs - 65535"]
      by (subst duration_items.simps) (simp add: comma_join_Cons)
    with ih le show ?thesis
      by (simp add: uint64ToString_65535)
  next
    case False
    with "1.prems" have "r = usecs" "out = str"
      by (subst (asm) usecs_loop.simps, simp)+
    with False show ?thesis
      by (subst duration_items.simps) simp
  qed
qed

lemma concat_items_ne: "ds \<noteq> [] \<Longrightarrow> concat (map duration_items ds) \<noteq> []"
  by (cases ds) (simp_all add: duration_items_ne)

lemma unat_usecs: "r < 4294967296 \<Longrightarrow> unat (word_of_nat r :: 64 word) = r"
  by (simp add: unat_of_nat)

lemma u32_less: "u32 i < 4294967296"
  by (simp add: u32_def)

lemma rawbuf_loop_eq:
  assumes "unat (rawlen capture) \<le> length (rawbuf capture)"
  shows "i \<le> unat (rawlen capture)
     \<Longrightarrow> rawbuf_loop lib capture i str
       = str @ comma_join (concat (map duration_items
            (map (\<lambda>t. u32 (int (unat t) * int (kRawTick lib)))
                 (drop i (take (unat (rawlen capture)) (rawbuf capture))))))"
proof (induction "unat (rawlen capture) - i" arbitrary: i str rule: less_induct)
  case less
  let ?n = "unat (rawlen capture)"
  let ?dur = "\<lambda>t. u32 (int (unat t) * int (kRawTick lib))"
  let ?buf = "take ?n (rawbuf capture)"
  let ?rest = "concat (map duration_items (map ?dur (drop (Suc i) ?buf)))"
  show ?case
  proof (cases "i < ?n")
    case False
    with less.prems show ?thesis
      by (subst rawbuf_loop.simps) simp
  next
    case True
    let ?d = "?dur (rawbuf capture ! i)"
    let ?item = "comma_join (duration_items ?d)"
    obtain r out where ul: "usecs_loop ?d str = (r, out)"
      by (cases "usecs_loop ?d str")
    from usecs_loop_eq [OF ul]
    have out: "out @ to_base 10 r = str @ ?item" and r: "r \<le> ?d"
      by simp_all
    have r32: "r < 4294967296"
      using r u32_less [of "int (unat (rawbuf capture ! i)) * int (kRawTick lib)"] by simp
    have s2: "out @ uint64ToString (word_of_nat r) 10 = str @ ?item"
      using out by (simp add: uint64ToString_def unat_usecs [OF r32])
    have s2': "out @ uint64ToString (word_of_nat r) 10 @ t = str @ ?item @ t" for t
      using s2 by (metis append_assoc)
    have cmp: "int i < uint (rawlen capture) - 1 \<longleftrightarrow> Suc i < ?n"
      unfolding uint_nat by linarith
    have dr: "drop i ?buf = rawbuf capture ! i # drop (Suc i) ?buf"
      using True assms by (simp add: Cons_nth_drop_Suc [symmetric])
    show ?thesis
    proof (cases "Suc i < ?n")
      case True
      have ih: "rawbuf_loop lib capture (Suc i) ((str @ ?item) @ '','')
          = ((str @ ?item) @ '','') @ comma_join ?rest"
        using True by (intro less.hyps) simp_all
      have "drop (Suc i) ?buf \<noteq> []"
        using True assms by simp
      then have "?rest \<noteq> []"
        by (intro concat_items_ne) simp
      then have cj: "comma_join (duration_items ?d @ ?rest) = ?item @ '','' @ comma_join ?rest"
        using duration_items_ne by (intro comma_join_append)
      have "rawbuf_loop lib capture i str = rawbuf_loop lib capture (Suc i) ((str @ ?item) @ '','')"
        using True \<open>i < ?n\<close> ul by (subst rawbuf_loop.simps) (simp add: Let_def cmp s2')
      with ih cj dr show ?thesis
        by simp
    next
      case False
      with \<open>i < ?n\<close> have e: "Suc i = ?n"
        by simp
      have ih: "rawbuf_loop lib capture (Suc i) (str @ ?item) = str @ ?item"
        using e by (subst rawbuf_loop.simps) simp
      have "rawbuf_loop lib capture i str = rawbuf_loop lib capture (Suc i) (str @ ?item)"
        using False \<open>i < ?n\<close> ul s2 by (subst rawbuf_loop.simps) (simp add: Let_def cmp)
      with ih dr e show ?thesis
        by simp
    qed
  qed
qed

section \<open>Facts about \<open>getUInt64fromHex\<close>\<close>

lemma hex_loop_step:
  "isxdigit (char_at str offset)
   \<Longrightarrow> hex_loop str offset result
       = hex_loop str (u16 (int offset + 1)) (hex_step result (char_at str offset))"
  by (subst hex_loop.simps) (simp add: hex_step_def digit_val_def Let_def)

lemma hex_loop_stop:
  "\<not> isxdigit (char_at str offset) \<Longrightarrow> hex_loop str offset result = Some result"
  by (subst hex_loop.simps) simp

lemma not_isxdigit_NUL: "\<not> isxdigit (CHR 0x00)"
  by (simp add: isxdigit_def)

lemma hex_loop_eq:
  "length str < 65536 \<Longrightarrow> offset \<le> length str
   \<Longrightarrow> hex_loop str offset result
       = Some (foldl hex_step result (takeWhile isxdigit (drop offset str)))"
proof (induction "length str - offset" arbitrary: offset result rule: less_induct)
  case less
  show ?case
  proof (cases "offset < length str")
    case False
    with less.prems have "offset = length str" by simp
    then show ?thesis
      by (simp add: hex_loop_stop char_at_def not_isxdigit_NUL)
  next
    case True
    then have c: "char_at str offset = str ! offset"
      by (simp add: char_at_def)
    have dr: "drop offset str = str ! offset # drop (Suc offset) str"
      using True by (simp add: Cons_nth_drop_Suc)
    show ?thesis
    proof (cases "isxdigit (str ! offset)")
      case False
      then show ?thesis
        by (simp add: hex_loop_stop c dr)
    next
      case x: True
      have u: "u16 (int offset + 1) = Suc offset"
        using True less.prems(1) by (simp add: u16_def nat_add_distrib)
      have "hex_loop str (Suc offset) (hex_step result (str ! offset))
          = Some (foldl hex_step (hex_step result (str ! offset))
                    (takeWhile isxdigit (drop (Suc offset) str)))"
        using True less.prems by (intro less.hyps) simp_all
      then show ?thesis
        using x by (simp add: hex_loop_step c u dr)
    qed
  qed
qed

lemma foldl_hex_step:
  "foldl hex_step (word_of_nat a) ds = word_of_nat (foldl (\<lambda>a c. a * 16 + digit_val c) a ds)"
proof (induction ds arbitrary: a)
  case Nil
  show ?case by simp
next
  case (Cons c ds)
  have "hex_step (word_of_nat a) c = word_of_nat (a * 16 + digit_val c)"
    by (simp add: hex_step_def)
  with Cons [of "a * 16 + digit_val c"] show ?case
    by simp
qed

lemma starts_0x:
  "(char_at str 0 = CHR ''0'' \<and> (char_at str 1 = CHR ''x'' \<or> char_at str 1 = CHR ''X''))
   \<longleftrightarrow> (startsWith str ''0x'' \<or> startsWith str ''0X'')"
proof (cases str)
  case Nil
  then show ?thesis by (simp add: char_at_def startsWith_def)
next
  case (Cons a as)
  then show ?thesis
    by (cases as) (auto simp: char_at_def startsWith_def)
qed

lemma getUInt64fromHex_eq:
  assumes "length str < 65536"
  shows "getUInt64fromHex str = Some (word_of_nat (hex_value (takeWhile isxdigit (skip_0x str))))"
proof -
  have loop: "hex_loop str offset 0
      = Some (word_of_nat (hex_value (takeWhile isxdigit (drop offset str))))"
    if "offset \<le> length str" for offset
    using hex_loop_eq [OF assms that, of 0] foldl_hex_step [of 0]
    by (simp add: hex_value_def)
  show ?thesis
  proof (cases "startsWith str ''0x'' \<or> startsWith str ''0X''")
    case True
    then have "2 \<le> length str"
      by (auto simp: startsWith_def)
    from loop [OF this] True show ?thesis
      unfolding getUInt64fromHex_def starts_0x skip_0x_def by simp
  next
    case False
    with loop [of 0] show ?thesis
      unfolding getUInt64fromHex_def starts_0x skip_0x_def by simp
  qed
qed

section \<open>Claims\<close>

text \<open>
  C1 (the code departs from the claim). The claim: a Raw payload with exactly one value,
  such as \<open>38000\<close>, is refused before any transmission, and a Pronto payload with fewer
  values than \<open>kProntoMinLength\<close> is refused likewise. \<open>countValuesInStr\<close> answers one
  more than the number of values, so the guards \<open>count < 2\<close> and
  \<open>count < kProntoMinLength\<close> let through a payload that is one value short: the Raw
  payload \<open>38000\<close> is transmitted (its single value serving both as frequency and as
  data) and \<open>true\<close> is returned, and with a minimum of 6 a Pronto payload of five values
  is transmitted.
\<close>

theorem raw_single_value_is_sent:
  "parseStringAndSendRaw ''38000'' =
     Some (True, [Malloc 1, Hw (SendRaw [Some 38000] 38000), Free])
   \<and> parseStringAndSendPronto 6 ''0000,0067,0000,0015,0060'' repeats =
     Some (True, [Malloc 6,
                  Hw (SendPronto [Some 0, Some 0x67, Some 0, Some 0x15, Some 0x60] repeats),
                  Free])"
  by (simp add: parseStringAndSendRaw_def parseStringAndSendPronto_def loop_eval conv_eval list_eval)

text \<open>
  C2 (the code departs from the claim). The claim: the buffer a codec allocates has as many
  elements as the conversion loop then writes. For the GlobalCache payload
  \<open>38000,1,1,170,170\<close> the counting pass answers 6, six cells are allocated, and the
  loop writes (and the transmission reads) five.
\<close>

theorem gc_allocates_one_more_than_written:
  "parseStringAndSendGC ''38000,1,1,170,170'' =
     Some (True, [Malloc 6,
                  Hw (SendGC [Some 38000, Some 1, Some 1, Some 170, Some 170]),
                  Free])"
  by (simp add: parseStringAndSendGC_def loop_eval conv_eval list_eval)

text \<open>
  C3 (as stated, refuted). The claim: every outcome of a dispatch, failure included,
  updates the command-echo string. A dispatch of the unsupported protocol 9999 returns
  false and leaves \<open>gsCommandString\<close> as the previous command set it.
\<close>

theorem failed_send_keeps_old_echo:
  "sendIRCode example_lib 9999 0xABC ''ABC'' 0 0 idle_state =
     Some (False, \<lparr>ir_lock = False, gbDecoderEnabled = False, gsCommandString = ''3,FF,32,0'',
                    gsReceiverString = [], trace = [LockSet True, LockSet False]\<rparr>)"
  by (simp add: send_eval wait_for_lock_idle idle_state_def example_lib_def)

text \<open>
  C3 (amended). The command-echo string is updated exactly when the send succeeds. When
  \<open>sendIRCode\<close> returns false the string is left as it was. When it returns true for a
  long-form protocol (one with AC state, PRONTO, RAW or GLOBALCACHE) the string is the
  protocol id, a comma and the payload as received, except that for PRONTO with a positive
  repeat argument \<open>R\<close>, that argument of the caller and a comma are put between the id
  and the payload. When it returns true for any other protocol the call has made exactly
  one transmission, and the string is the protocol id, the code in hexadecimal, and the
  bit width and the repeat count of that transmission, separated by commas.
\<close>

theorem echo_updated_only_on_success:
  assumes "sendIRCode lib ir_type code code_str bits repeat s = Some (ok, s')"
  shows "(\<not> ok \<longrightarrow> gsCommandString s' = gsCommandString s)
       \<and> (ok \<and> (hasACState lib ir_type \<or> ir_type = PRONTO \<or> ir_type = RAW
                 \<or> ir_type = GLOBALCACHE) \<longrightarrow>
            gsCommandString s' =
              (if ir_type = PRONTO \<and> 0 < repeat
               then String_of ir_type @ '',R'' @ String_of (uint repeat) @ '','' @ code_str
               else String_of ir_type @ '','' @ code_str))
       \<and> (ok \<and> \<not> (hasACState lib ir_type \<or> ir_type = PRONTO \<or> ir_type = RAW
                   \<or> ir_type = GLOBALCACHE) \<longrightarrow>
            (\<exists>f (bits'::16 word) (repeat'::16 word).
               trace s' = trace s @ [LockSet True, Hw (Send f code bits' repeat'), LockSet False]
               \<and> gsCommandString s' =
                   String_of ir_type @ '','' @ uint64ToString code 16 @ '',''
                     @ String_of (uint bits') @ '','' @ String_of (uint repeat')))"
proof -
  from assms obtain bits' repeat' evs
    where sw: "switch_ir_type lib ir_type code code_str bits repeat = Some (ok, bits', repeat', evs)"
      and s': "s' = report_sent lib ir_type code code_str bits' repeat' ok
                      (set_lock False (perform evs (set_lock True s)))"
    by (auto simp: sendIRCode_def Let_def split: option.splits dest: wait_for_lock_Some)
  show ?thesis
  proof (intro conjI impI)
    assume "\<not> ok"
    with s' show "gsCommandString s' = gsCommandString s"
      by (simp add: report_sent_def set_lock_def log_event_def perform_def)
  next
    assume a: "ok \<and> (hasACState lib ir_type \<or> ir_type = PRONTO \<or> ir_type = RAW
                 \<or> ir_type = GLOBALCACHE)"
    have "ir_type = PRONTO \<Longrightarrow> repeat' = repeat"
      using long_form_repeat [OF sw] by simp
    with a s' show "gsCommandString s' =
              (if ir_type = PRONTO \<and> 0 < repeat
               then String_of ir_type @ '',R'' @ String_of (uint repeat) @ '','' @ code_str
               else String_of ir_type @ '','' @ code_str)"
      by (auto simp: report_sent_def set_lock_def log_event_def perform_def)
  next
    assume a: "ok \<and> \<not> (hasACState lib ir_type \<or> ir_type = PRONTO \<or> ir_type = RAW
                   \<or> ir_type = GLOBALCACHE)"
    with sw obtain f where evs: "evs = [Hw (Send f code bits' repeat')]"
      using short_form_events [of lib ir_type code code_str bits repeat bits' repeat' evs]
      by auto
    from a s' have "trace s' = trace s @ [LockSet True, Hw (Send f code bits' repeat'), LockSet False]
        \<and> gsCommandString s' =
            String_of ir_type @ '','' @ uint64ToString code 16 @ '',''
              @ String_of (uint bits') @ '','' @ String_of (uint repeat')"
      by (simp add: report_sent_def set_lock_def log_event_def perform_def evs)
    then show "\<exists>f (bits'::16 word) (repeat'::16 word).
               trace s' = trace s @ [LockSet True, Hw (Send f code bits' repeat'), LockSet False]
               \<and> gsCommandString s' =
                   String_of ir_type @ '','' @ uint64ToString code 16 @ '',''
                     @ String_of (uint bits') @ '','' @ String_of (uint repeat')"
      by blast
  qed
qed

theorem echo_updated_only_on_success_witness:
  "sendIRCode example_lib SONY 0xA90 ''A90'' 0 0 (idle_state\<lparr>gsCommandString := []\<rparr>) =
     Some (True, \<lparr>ir_lock = False, gbDecoderEnabled = False, gsCommandString = ''4,A90,32,2'',
                   gsReceiverString = [],
                   trace = [LockSet True, Hw (Send sendSony 0xA90 32 2), LockSet False]\<rparr>)
   \<and> (\<exists>f (bits'::16 word) (repeat'::16 word).
         [LockSet True, Hw (Send sendSony 0xA90 32 2), LockSet False]
           = [LockSet True, Hw (Send f 0xA90 bits' repeat'), LockSet False]
         \<and> ''4,A90,32,2'' = String_of SONY @ '','' @ uint64ToString 0xA90 16 @ '',''
                               @ String_of (uint bits') @ '','' @ String_of (uint repeat'))"
proof -
  have h: "sendIRCode example_lib SONY 0xA90 ''A90'' 0 0 (idle_state\<lparr>gsCommandString := []\<rparr>) =
     Some (True, \<lparr>ir_lock = False, gbDecoderEnabled = False, gsCommandString = ''4,A90,32,2'',
                   gsReceiverString = [],
                   trace = [LockSet True, Hw (Send sendSony 0xA90 32 2), LockSet False]\<rparr>)"
    by (simp add: send_eval wait_for_lock_idle idle_state_def example_lib_def print_eval)
  from echo_updated_only_on_success [OF h] h show ?thesis
    by (simp add: example_lib_def protocol_defs idle_state_def)
qed

text \<open>
  C4 (as stated, refuted). The claim: while \<open>gbDecoderEnabled\<close> is false a captured
  waveform is neither formatted nor published. \<open>irDriverLoop\<close> never reads the flag:
  with the flag false, a captured NEC code is formatted and published on \<open>received\<close>.
\<close>

theorem receive_ignores_toggle_counterexample:
  "gbDecoderEnabled idle_state = False
   \<and> irDriverLoop example_lib
         (Some \<lparr>decode_type = NEC, capture_value = 0xFF, capture_bits = 32, rawbuf = [],
                 rawlen = 0\<rparr>) idle_state
       = idle_state\<lparr>gsReceiverString := ''3,FF,32'',
                     trace := [Publish ''received'' ''3,FF,32'']\<rparr>"
  by (simp add: irDriverLoop_def idle_state_def example_lib_def protocol_defs log_event_def
        Let_def print_eval)

text \<open>
  C4 (amended). \<open>irDriverLoop\<close> does the same whatever the value of
  \<open>gbDecoderEnabled\<close>, and leaves the flag as it is: every captured waveform is
  formatted and published on \<open>received\<close>. The toggle's handler only stores the value
  and publishes it on \<open>decoderEnabled\<close>.
\<close>

theorem receive_ignores_toggle:
  "irDriverLoop lib decoded (s\<lparr>gbDecoderEnabled := b\<rparr>)
     = (irDriverLoop lib decoded s)\<lparr>gbDecoderEnabled := b\<rparr>
   \<and> trace (irDriverLoop lib (Some capture) s)
       = trace s @ [Publish ''received'' (gsReceiverString (irDriverLoop lib (Some capture) s))]
   \<and> decodeEnableHandler ''false'' s
       = (True, s\<lparr>gbDecoderEnabled := False,
                     trace := trace s @ [Publish ''decoderEnabled'' ''false'']\<rparr>)
   \<and> decodeEnableHandler ''true'' s
       = (True, s\<lparr>gbDecoderEnabled := True,
                     trace := trace s @ [Publish ''decoderEnabled'' ''true'']\<rparr>)"
  by (cases decoded) (simp_all add: irDriverLoop_def log_event_def Let_def decodeEnableHandler_def)

text \<open>
  C5. For a Pronto payload of fewer than 32767 characters that begins with \<open>R\<close> or
  \<open>r\<close>, and any repeat argument of the caller: the first value without its first
  character, read as a decimal number and stored in 16 bits, is the repeat count given to
  \<open>sendPronto\<close>, whatever the caller's argument; the values given to \<open>sendPronto\<close> are
  those after the first one. (When the payload is too short nothing is transmitted; the
  minimum \<open>kProntoMinLength\<close> of the library is more than 1.)
\<close>

theorem pronto_embedded_repeat_overrides:
  assumes "length str < 32767" and "startsWith str ''R'' \<or> startsWith str ''r''"
    and "1 < kmin"
  shows "parseStringAndSendPronto kmin str repeats =
     (if length (values_of str) < kmin then Some (False, [])
      else Some (True, [Malloc (length (values_of str)),
                        Hw (SendPronto (map (\<lambda>t. Some (strtoul16w t)) (tl (values_of str)))
                                       (toInt16 (tl (hd (values_of str))))),
                        Free]))"
  using parseStringAndSendPronto_embedded [OF assms(1,2), of kmin repeats] assms(3)
  by (simp split: if_splits)

theorem pronto_embedded_repeat_overrides_witness:
  "length ''R2,0000,0067,0000,0015,0060,0018'' < 32767
   \<and> (startsWith ''R2,0000,0067,0000,0015,0060,0018'' ''R''
        \<or> startsWith ''R2,0000,0067,0000,0015,0060,0018'' ''r'')
   \<and> (1::nat) < 6
   \<and> parseStringAndSendPronto 6 ''R2,0000,0067,0000,0015,0060,0018'' 7 =
       Some (True, [Malloc 7,
                    Hw (SendPronto [Some 0, Some 0x67, Some 0, Some 0x15, Some 0x60, Some 0x18] 2),
                    Free])"
  using pronto_embedded_repeat_overrides [of "''R2,0000,0067,0000,0015,0060,0018''" 6 7]
  by (simp add: startsWith_def conv_eval)

text \<open>
  C6. For each protocol whose case has a minimum repeat count \<open>m\<close> (SONY,
  AIWA_RC_T501, MITSUBISHI, DISH, SHERWOOD, MITSUBISHI2, GICABLE), a dispatch that finds
  the lock free returns true after exactly one transmission, made with the protocol's
  primitive, and its repeat count is \<open>m\<close> when the requested \<open>r\<close> is less than \<open>m\<close>
  and \<open>r\<close> otherwise.
\<close>

theorem minimum_repeat_enforced:
  assumes "\<not> ir_lock s" and "(ir_type, f, b, m) \<in> set min_repeat_protocols"
  shows "\<exists>s'. sendIRCode lib ir_type code code_str bits r s = Some (True, s')
           \<and> trace s' = trace s @
               [LockSet True,
                Hw (Send f code (if bits = 0 then default_bits lib b else bits)
                                (if r < min_repeat lib m then min_repeat lib m else r)),
                LockSet False]"
  using assms(1) switch_min_repeat [OF assms(2), of lib code code_str bits r]
  by (auto simp: sendIRCode_def wait_for_lock_idle short_case_def set_lock_def log_event_def
        perform_def Let_def max_def)

theorem minimum_repeat_enforced_witness:
  "\<not> ir_lock idle_state \<and> (SONY, sendSony, kSony12Bits, kSonyMinRepeat) \<in> set min_repeat_protocols
   \<and> (\<exists>s'. sendIRCode example_lib SONY 0xA90 ''A90'' 12 0 idle_state = Some (True, s')
           \<and> trace s' = [LockSet True, Hw (Send sendSony 0xA90 12 2), LockSet False])"
  using minimum_repeat_enforced [of idle_state SONY sendSony kSony12Bits kSonyMinRepeat
      example_lib "0xA90" "''A90''" 12 0]
  by (simp add: idle_state_def min_repeat_protocols_def example_lib_def)

text \<open>
  C7 (as stated, refuted). The claim: for every GlobalCache payload \<open>s\<close>, parsing
  \<open>1:1,1,\<close> followed by \<open>s\<close> gives the same values as parsing \<open>s\<close> alone. The prefix
  is stripped once: when \<open>s\<close> itself begins with \<open>1:1,1,\<close> the two differ.
\<close>

theorem gc_prefix_stripped_once_counterexample:
  "parseStringAndSendGC (''1:1,1,'' @ ''1:1,1,5'') \<noteq> parseStringAndSendGC ''1:1,1,5''"
  by (simp add: parseStringAndSendGC_def loop_eval conv_eval list_eval)

text \<open>
  C7 (amended). For every GlobalCache payload \<open>s\<close> that does not itself begin with
  \<open>1:1,1,\<close>, parsing \<open>1:1,1,\<close> followed by \<open>s\<close> does exactly what parsing \<open>s\<close> alone
  does; for \<open>s\<close> of fewer than 32767 characters that is the transmission of the values
  of \<open>s\<close>.
\<close>

theorem gc_prefix_stripped_once:
  assumes "\<not> startsWith s ''1:1,1,''" and "length s < 32767"
  shows "parseStringAndSendGC (''1:1,1,'' @ s) = parseStringAndSendGC s
       \<and> parseStringAndSendGC s =
           Some (True, [Malloc (Suc (length (values_of s))),
                        Hw (SendGC (map (\<lambda>t. Some (toInt16 t)) (values_of s))),
                        Free])"
proof
  have "parseStringAndSendGC (''1:1,1,'' @ s) =
        (case countValuesInStr s CHR '','' of
           None \<Rightarrow> None
         | Some count \<Rightarrow>
             (case convert_loop toInt16 s 0 0 (newCodeArray count) of
                None \<Rightarrow> None
              | Some (count', code_array) \<Rightarrow>
                  Some (0 < count',
                        [Malloc count, Hw (SendGC (take count' code_array)), Free])))"
    unfolding parseStringAndSendGC_def gc_prefix_tmp Let_def ..
  also have "\<dots> = parseStringAndSendGC s"
    using assms(1) by (simp add: parseStringAndSendGC_def)
  finally show "parseStringAndSendGC (''1:1,1,'' @ s) = parseStringAndSendGC s" .
  show "parseStringAndSendGC s =
           Some (True, [Malloc (Suc (length (values_of s))),
                        Hw (SendGC (map (\<lambda>t. Some (toInt16 t)) (values_of s))),
                        Free])"
    using parseStringAndSendGC_eq [OF assms(2)] assms(1) by simp
qed

theorem gc_prefix_stripped_once_witness:
  "\<not> startsWith ''38000,1,1,170,170'' ''1:1,1,'' \<and> length ''38000,1,1,170,170'' < 32767
   \<and> parseStringAndSendGC ''1:1,1,38000,1,1,170,170'' = parseStringAndSendGC ''38000,1,1,170,170''
   \<and> parseStringAndSendGC ''38000,1,1,170,170'' =
       Some (True, [Malloc 6,
                    Hw (SendGC [Some 38000, Some 1, Some 1, Some 170, Some 170]),
                    Free])"
  using gc_prefix_stripped_once [of "''38000,1,1,170,170''"]
  by (simp add: startsWith_def conv_eval)

text \<open>
  C8. For every capture whose \<open>rawlen\<close> entries lie within its buffer, the string
  \<open>irDriverLoop\<close> builds and publishes is the one the specification describes: the
  decode type, a comma and the hexadecimal value; for the \<open>UNKNOWN\<close> type a semicolon
  and the comma-joined durations, each duration above 65535 written as pairs \<open>65535\<close>,
  \<open>0\<close> followed by what remains of it; and, when the type has no AC state, a comma and
  the bit count.
\<close>

theorem receive_formatter_output:
  assumes "unat (rawlen capture) \<le> length (rawbuf capture)"
  shows "gsReceiverString (irDriverLoop lib (Some capture) s) = received_format lib capture"
proof -
  have "rawbuf_loop lib capture 1 str
      = str @ comma_join (concat (map duration_items (durations lib capture)))" for str
  proof (cases "1 \<le> unat (rawlen capture)")
    case True
    from rawbuf_loop_eq [OF assms True] show ?thesis
      by (simp add: durations_def)
  next
    case False
    then have z: "unat (rawlen capture) = 0"
      by simp
    then show ?thesis
      by (subst rawbuf_loop.simps) (simp add: durations_def)
  qed
  then show ?thesis
    by (simp add: irDriverLoop_def received_format_def log_event_def Let_def)
qed

theorem receive_formatter_output_witness:
  "unat (3 :: 16 word) \<le> length [100, 40000, 300 :: 16 word]
   \<and> gsReceiverString (irDriverLoop example_lib
         (Some \<lparr>decode_type = UNKNOWN, capture_value = 0x1F, capture_bits = 4,
                 rawbuf = [100, 40000, 300], rawlen = 3\<rparr>) idle_state)
       = ''-1,1F;65535,0,14465,600,4''"
  using receive_formatter_output [of "\<lparr>decode_type = UNKNOWN, capture_value = 0x1F,
      capture_bits = 4, rawbuf = [100, 40000, 300], rawlen = 3\<rparr>" example_lib idle_state]
  by (simp add: received_format_def durations_def example_lib_def UNKNOWN_def u32_def
        duration_items.simps print_eval)

text \<open>
  C9. A call of \<open>sendIRCode\<close> that finds \<open>ir_lock\<close> set does not get past the wait: it
  transmits nothing and does not return. Whenever a call returns, \<open>ir_lock\<close> is false,
  and what the call has added to the trace is: the write of true to the lock, then the
  events of the selected case, then the write of false. Each of those events is an
  allocation, a hardware call or a release recorded as made under the lock (none is
  marked \<open>Unlocked\<close>), so \<open>ir_lock\<close> was true at every transmission, and the release
  is on every path, success or failure. The call does return when it finds the lock free
  and the payload is shorter than 32767 characters.
\<close>

theorem lock_released_on_every_exit:
  "(ir_lock s \<longrightarrow> sendIRCode lib ir_type code code_str bits repeat s = None)
   \<and> (\<forall>ok s'. sendIRCode lib ir_type code code_str bits repeat s = Some (ok, s') \<longrightarrow>
         \<not> ir_lock s'
         \<and> (\<exists>evs. trace s' = trace s @ [LockSet True] @ evs @ [LockSet False]
                  \<and> (\<forall>e\<in>set evs. transmission_event e)))
   \<and> (\<not> ir_lock s \<and> length code_str < 32767 \<longrightarrow>
        (\<exists>ok s'. sendIRCode lib ir_type code code_str bits repeat s = Some (ok, s')))"
proof (intro conjI allI impI)
  assume "ir_lock s"
  then show "sendIRCode lib ir_type code code_str bits repeat s = None"
    by (simp add: sendIRCode_def wait_for_lock_held)
next
  fix ok s'
  assume r: "sendIRCode lib ir_type code code_str bits repeat s = Some (ok, s')"
  then obtain bits' repeat' evs
    where sw: "switch_ir_type lib ir_type code code_str bits repeat = Some (ok, bits', repeat', evs)"
      and s': "s' = report_sent lib ir_type code code_str bits' repeat' ok
                      (set_lock False (perform evs (set_lock True s)))"
    by (auto simp: sendIRCode_def Let_def split: option.splits dest: wait_for_lock_Some)
  from s' show "\<not> ir_lock s'"
    by (simp add: set_lock_def log_event_def perform_def)
  from s' switch_ir_type_events [OF sw]
  show "\<exists>evs. trace s' = trace s @ [LockSet True] @ evs @ [LockSet False]
              \<and> (\<forall>e\<in>set evs. transmission_event e)"
    by (intro exI [of _ evs]) (simp add: perform_def set_lock_def log_event_def)
next
  assume "\<not> ir_lock s \<and> length code_str < 32767"
  then have w: "wait_for_lock s = Some s" and len: "length code_str < 32767"
    by (simp_all add: wait_for_lock_idle)
  from switch_ir_type_returns [OF len, of lib ir_type code bits repeat]
  obtain r where "switch_ir_type lib ir_type code code_str bits repeat = Some r" ..
  with w show "\<exists>ok s'. sendIRCode lib ir_type code code_str bits repeat s = Some (ok, s')"
    by (cases r) (simp add: sendIRCode_def Let_def)
qed

theorem lock_released_on_every_exit_witness:
  "\<not> ir_lock idle_state \<and> length ''38000,9000,4500'' < 32767
   \<and> (\<exists>ok s'. sendIRCode example_lib RAW 0 ''38000,9000,4500'' 0 0 idle_state = Some (ok, s')
          \<and> \<not> ir_lock s'
          \<and> (\<exists>evs. trace s' = trace idle_state @ [LockSet True] @ evs @ [LockSet False]))
   \<and> ir_lock (idle_state\<lparr>ir_lock := True\<rparr>)
   \<and> sendIRCode example_lib RAW 0 ''38000,9000,4500'' 0 0 (idle_state\<lparr>ir_lock := True\<rparr>) = None"
proof -
  have h: "\<not> ir_lock idle_state \<and> length ''38000,9000,4500'' < 32767"
    by (simp add: idle_state_def)
  have k: "ir_lock (idle_state\<lparr>ir_lock := True\<rparr>)"
    by simp
  note t = lock_released_on_every_exit [of idle_state example_lib RAW 0 "''38000,9000,4500''" 0 0]
  note u = lock_released_on_every_exit [of "idle_state\<lparr>ir_lock := True\<rparr>" example_lib RAW 0
      "''38000,9000,4500''" 0 0]
  from t h obtain ok s'
    where r: "sendIRCode example_lib RAW 0 ''38000,9000,4500'' 0 0 idle_state = Some (ok, s')"
    by blast
  with t have "\<not> ir_lock s'
      \<and> (\<exists>evs. trace s' = trace idle_state @ [LockSet True] @ evs @ [LockSet False])"
    by blast
  moreover from u k
  have "sendIRCode example_lib RAW 0 ''38000,9000,4500'' 0 0 (idle_state\<lparr>ir_lock := True\<rparr>) = None"
    by blast
  ultimately show ?thesis
    using h k r by blast
qed

text \<open>
  C10. For every string of fewer than 65536 characters (the range of the 16-bit offset)
  \<open>getUInt64fromHex\<close> returns, and returns a number, never an error: after an optional
  leading \<open>0x\<close> or \<open>0X\<close>, the value of the longest leading run of hexadecimal
  digits, modulo \<open>2^64\<close>; that is 0 when the run is empty, and whatever follows the
  run is ignored. So whenever such a string is the second token of a command,
  \<open>processCommand\<close> goes on to \<open>sendIRCode\<close> with that number as the code, for
  long-form payloads as for short codes.
\<close>

theorem getUInt64fromHex_total:
  assumes "length str < 65536"
  shows "getUInt64fromHex str = Some (word_of_nat (hex_value (takeWhile isxdigit (skip_0x str))))
       \<and> (\<forall>lib commandString s tok1 rest1 rest2.
             strtok_r commandString = Some (tok1, rest1) \<and> strtok_r rest1 = Some (str, rest2)
             \<longrightarrow> (\<exists>nbits repeat.
                   processCommand lib commandString s =
                     sendIRCode lib (s32 (int (strtoul10 tok1)))
                       (word_of_nat (hex_value (takeWhile isxdigit (skip_0x str))))
                       (substring commandString (u32 (indexOf commandString CHR '','' 0 + 1))
                          (length commandString))
                       nbits repeat s))"
proof (intro conjI allI impI)
  show h: "getUInt64fromHex str = Some (word_of_nat (hex_value (takeWhile isxdigit (skip_0x str))))"
    using assms by (rule getUInt64fromHex_eq)
  fix lib commandString s tok1 rest1 rest2
  assume "strtok_r commandString = Some (tok1, rest1) \<and> strtok_r rest1 = Some (str, rest2)"
  then have "processCommand lib commandString s =
      sendIRCode lib (s32 (int (strtoul10 tok1)))
        (word_of_nat (hex_value (takeWhile isxdigit (skip_0x str))))
        (substring commandString (u32 (indexOf commandString CHR '','' 0 + 1))
           (length commandString))
        (case strtok_r rest2 of None \<Rightarrow> 0 | Some (tok3, rest3) \<Rightarrow> word_of_int (atoi tok3))
        (case (case strtok_r rest2 of None \<Rightarrow> None | Some (tok3, rest3) \<Rightarrow> strtok_r rest3) of
           None \<Rightarrow> 0 | Some (tok4, rest4) \<Rightarrow> word_of_int (atoi tok4))
        s"
    by (simp add: processCommand_def h Let_def)
  then show "\<exists>nbits repeat.
       processCommand lib commandString s =
         sendIRCode lib (s32 (int (strtoul10 tok1)))
           (word_of_nat (hex_value (takeWhile isxdigit (skip_0x str))))
           (substring commandString (u32 (indexOf commandString CHR '','' 0 + 1))
              (length commandString))
           nbits repeat s"
    by blast
qed

theorem getUInt64fromHex_total_witness:
  "length ''38000'' < 65536 \<and> getUInt64fromHex ''38000'' = Some 0x38000
   \<and> strtok_r ''30,38000,9000,4500'' = Some (''30'', ''38000,9000,4500'')
   \<and> strtok_r ''38000,9000,4500'' = Some (''38000'', ''9000,4500'')
   \<and> (\<exists>nbits repeat.
         processCommand example_lib ''30,38000,9000,4500'' idle_state =
           sendIRCode example_lib 30 0x38000 ''38000,9000,4500'' nbits repeat idle_state)"
proof -
  have l: "length ''38000'' < 65536"
    by simp
  have t: "strtok_r ''30,38000,9000,4500'' = Some (''30'', ''38000,9000,4500'')
         \<and> strtok_r ''38000,9000,4500'' = Some (''38000'', ''9000,4500'')"
    by (simp add: strtok_r_def)
  have v: "(word_of_nat (hex_value (takeWhile isxdigit (skip_0x ''38000''))) :: 64 word) = 0x38000"
    by (simp add: hex_value_def skip_0x_def startsWith_def isxdigit_def digit_val_def
          isdigit_def isupper_def)
  have i: "s32 (int (strtoul10 ''30'')) = 30"
    by (simp add: strtoul10_def conv_eval s32_def)
  have p: "substring ''30,38000,9000,4500'' (u32 (indexOf ''30,38000,9000,4500'' CHR '','' 0 + 1))
             (length ''30,38000,9000,4500'') = ''38000,9000,4500''"
    by (simp add: indexOf_def u32_def substring_def)
  note w = getUInt64fromHex_total [OF l]
  from w have "getUInt64fromHex ''38000'' = Some 0x38000"
    unfolding v by blast
  moreover from w t have "\<exists>nbits repeat.
         processCommand example_lib ''30,38000,9000,4500'' idle_state =
           sendIRCode example_lib 30 0x38000 ''38000,9000,4500'' nbits repeat idle_state"
    unfolding v
    using i p by (metis (no_types))
  ultimately show ?thesis
    using l t by blast
qed

end
